theory Spec2Isabelle
  imports Main "HOL-Library.Word"
begin

unbundle bit_operations_syntax

section \<open>Gmail retrieval layer: message parsing and date handling\<close>

text \<open>
  A shallow embedding of \<^verbatim>\<open>src/server/gmail.py\<close> and \<^verbatim>\<open>src/server/utils.py\<close>.
  Python exceptions are values of \<open>error\<close>; a function that may raise returns
  \<open>error + 'a\<close> with \<open>Inl\<close> for the exception.

  Textual metadata (header names and values, identifiers, date strings, base64 payloads)
  is modelled by \<open>string\<close>: a list of characters with code points below 256. On this
  range the regular-expression class \<^verbatim>\<open>\d\<close> is exactly the ASCII digits. Decoded message
  bodies are lists of Unicode code points (\<open>unicode\<close>).
\<close>

datatype error =
    ValueError          \<comment> \<open>also raised by strptime, fromisoformat and the validators\<close>
  | BinasciiError       \<comment> \<open>binascii.Error, raised by base64 decoding\<close>
  | OverflowError
  | KeyError
  | IndexError
  | HttpError
  | ValidationError     \<comment> \<open>pydantic's error for a rejected field\<close>
  | TransportError      \<comment> \<open>any other exception of the provider client\<close>

type_synonym unicode = "nat list"

subsection \<open>Header mapping\<close>

text \<open>
  \<^verbatim>\<open>headers = {header['name']: header['value'] for header in payload.get('headers', [])}\<close>:
  the comprehension stores the pairs one after the other into a dictionary that starts empty.
\<close>

definition headers_dict :: "(string \<times> string) list \<Rightarrow> (string \<rightharpoonup> string)" where
  "headers_dict hs = foldl (\<lambda>m (n, v). m(n \<mapsto> v)) Map.empty hs"

text \<open>\<^verbatim>\<open>d.get(k, default)\<close>\<close>

definition dict_get :: "('k \<rightharpoonup> 'v) \<Rightarrow> 'k \<Rightarrow> 'v \<Rightarrow> 'v" where
  "dict_get m k d = (case m k of None \<Rightarrow> d | Some v \<Rightarrow> v)"

subsection \<open>Base64 and UTF-8 decoding of a body\<close>

text \<open>
  \<^verbatim>\<open>base64.urlsafe_b64decode(data).decode('utf-8', errors='ignore')\<close>. The two library
  functions are modelled after CPython: \<^verbatim>\<open>urlsafe_b64decode\<close> encodes a \<^verbatim>\<open>str\<close> argument as
  ASCII (a \<^verbatim>\<open>ValueError\<close> when a character is not ASCII), maps \<^verbatim>\<open>-\<close> to \<^verbatim>\<open>+\<close> and \<^verbatim>\<open>_\<close> to
  \<^verbatim>\<open>/\<close>, and calls \<^verbatim>\<open>binascii.a2b_base64\<close> in its non-strict mode, which skips every
  character outside the alphabet, stops at a complete padding and raises
  \<^verbatim>\<open>binascii.Error\<close> when the input ends inside a quad.
\<close>

type_synonym byte = "8 word"

definition table_a2b_base64 :: "char \<Rightarrow> byte option" where
  "table_a2b_base64 c =
     (let n = (of_char c :: nat) in
      if 65 \<le> n \<and> n \<le> 90 then Some (of_nat (n - 65))
      else if 97 \<le> n \<and> n \<le> 122 then Some (of_nat (n - 71))
      else if 48 \<le> n \<and> n \<le> 57 then Some (of_nat (n + 4))
      else if c = CHR ''+'' then Some 62
      else if c = CHR ''/'' then Some 63
      else None)"

text \<open>
  The loop of \<^verbatim>\<open>binascii.a2b_base64\<close> over the input characters, with its local variables
  \<^verbatim>\<open>quad_pos\<close>, \<^verbatim>\<open>leftchar\<close>, \<^verbatim>\<open>pads\<close> and the output written so far.
\<close>

fun a2b_loop :: "nat \<Rightarrow> byte \<Rightarrow> nat \<Rightarrow> byte list \<Rightarrow> string \<Rightarrow> error + byte list" where
  "a2b_loop quad_pos leftchar pads out [] =
     (if quad_pos \<noteq> 0 then Inl BinasciiError else Inr out)"
| "a2b_loop quad_pos leftchar pads out (c # cs) =
     (if c = CHR ''='' then
        (if 2 \<le> quad_pos \<and> 4 \<le> quad_pos + (pads + 1) then Inr out
         else a2b_loop quad_pos leftchar (if 2 \<le> quad_pos then pads + 1 else pads) out cs)
      else
        (case table_a2b_base64 c of
           None \<Rightarrow> a2b_loop quad_pos leftchar pads out cs
         | Some this_ch \<Rightarrow>
             (if quad_pos = 0 then a2b_loop 1 this_ch 0 out cs
              else if quad_pos = 1 then
                a2b_loop 2 (this_ch AND 0x0f) 0
                  (out @ [push_bit 2 leftchar OR drop_bit 4 this_ch]) cs
              else if quad_pos = 2 then
                a2b_loop 3 (this_ch AND 0x03) 0
                  (out @ [push_bit 4 leftchar OR drop_bit 2 this_ch]) cs
              else
                a2b_loop 0 0 0 (out @ [push_bit 6 leftchar OR this_ch]) cs)))"

definition a2b_base64 :: "string \<Rightarrow> error + byte list" where
  "a2b_base64 s = a2b_loop 0 0 0 [] s"

definition urlsafe_decode_translation :: "char \<Rightarrow> char" where
  "urlsafe_decode_translation c =
     (if c = CHR ''-'' then CHR ''+'' else if c = CHR ''_'' then CHR ''/'' else c)"

definition is_ascii :: "char \<Rightarrow> bool" where
  "is_ascii c = ((of_char c :: nat) < 128)"

definition urlsafe_b64decode :: "string \<Rightarrow> error + byte list" where
  "urlsafe_b64decode s =
     (if list_all is_ascii s then a2b_base64 (map urlsafe_decode_translation s)
      else Inl ValueError)"

text \<open>
  \<^verbatim>\<open>bytes.decode('utf-8', errors='ignore')\<close>. \<open>utf8_seq\<close> recognises a well-formed UTF-8
  sequence at the head of the input and returns its code point and length. With
  \<^verbatim>\<open>errors='ignore'\<close> the decoder drops the bytes of an ill-formed sequence and goes on;
  the bytes it drops after an ill-formed lead byte are continuation bytes, which start
  no sequence, so dropping one byte at a time yields the same string.
\<close>

definition is_continuation :: "byte \<Rightarrow> bool" where
  "is_continuation b = (0x80 \<le> b \<and> b \<le> 0xBF)"

definition low6 :: "byte \<Rightarrow> nat" where
  "low6 b = unat (b AND 0x3F)"

fun utf8_seq :: "byte list \<Rightarrow> (nat \<times> nat) option" where
  "utf8_seq [] = None"
| "utf8_seq (b0 # bs) =
     (if b0 \<le> 0x7F then Some (unat b0, 1)
      else if 0xC2 \<le> b0 \<and> b0 \<le> 0xDF then
        (case bs of
           b1 # _ \<Rightarrow>
             if is_continuation b1 then Some (unat (b0 AND 0x1F) * 64 + low6 b1, 2) else None
         | _ \<Rightarrow> None)
      else if 0xE0 \<le> b0 \<and> b0 \<le> 0xEF then
        (case bs of
           b1 # b2 # _ \<Rightarrow>
             if (if b0 = 0xE0 then 0xA0 else 0x80) \<le> b1
                \<and> b1 \<le> (if b0 = 0xED then 0x9F else 0xBF) \<and> is_continuation b2
             then Some (unat (b0 AND 0x0F) * 4096 + low6 b1 * 64 + low6 b2, 3) else None
         | _ \<Rightarrow> None)
      else if 0xF0 \<le> b0 \<and> b0 \<le> 0xF4 then
        (case bs of
           b1 # b2 # b3 # _ \<Rightarrow>
             if (if b0 = 0xF0 then 0x90 else 0x80) \<le> b1
                \<and> b1 \<le> (if b0 = 0xF4 then 0x8F else 0xBF)
                \<and> is_continuation b2 \<and> is_continuation b3
             then Some (unat (b0 AND 0x07) * 262144 + low6 b1 * 4096 + low6 b2 * 64 + low6 b3, 4)
             else None
         | _ \<Rightarrow> None)
      else None)"

fun utf8_decode_ignore :: "byte list \<Rightarrow> unicode" where
  "utf8_decode_ignore [] = []"
| "utf8_decode_ignore (b # bs) =
     (case utf8_seq (b # bs) of
        Some (cp, n) \<Rightarrow> cp # utf8_decode_ignore (drop (n - 1) bs)
      | None \<Rightarrow> utf8_decode_ignore bs)"

definition decode_body_data :: "string \<Rightarrow> error + unicode" where
  "decode_body_data d =
     (case urlsafe_b64decode d of Inl e \<Rightarrow> Inl e | Inr bs \<Rightarrow> Inr (utf8_decode_ignore bs))"

subsection \<open>MIME parts and body extraction\<close>

text \<open>
  A part of the payload tree as the provider returns it: each of the keys \<^verbatim>\<open>mimeType\<close>,
  \<^verbatim>\<open>body\<close> (a dictionary with an optional \<^verbatim>\<open>data\<close>) and \<^verbatim>\<open>parts\<close> may be absent.
\<close>

datatype part = Part (mimeType: "string option") (body: "string option option")
  (parts: "part list option")

text \<open>\<^verbatim>\<open>part.get('body', {}).get('data', '')\<close>\<close>

definition body_data :: "part \<Rightarrow> string" where
  "body_data p = (case body p of Some (Some d) \<Rightarrow> d | _ \<Rightarrow> [])"

text \<open>
  What \<^verbatim>\<open>get_body_from_part\<close> does with the part itself, below the loop over the
  sub-parts.
\<close>

definition own_body :: "part \<Rightarrow> error + unicode" where
  "own_body p =
     (if mimeType p = Some ''text/plain'' \<and> body_data p \<noteq> [] then decode_body_data (body_data p)
      else if mimeType p = Some ''text/html'' \<and> body_data p \<noteq> [] then decode_body_data (body_data p)
      else Inr [])"

text \<open>
  \<^verbatim>\<open>get_body_from_part\<close>; \<open>get_body_from_parts\<close> is its \<^verbatim>\<open>for subpart in part['parts']\<close>
  loop, whose result \<open>Inr []\<close> says that no sub-part returned a non-empty body.
\<close>

fun get_body_from_part :: "part \<Rightarrow> error + unicode"
  and get_body_from_parts :: "part list \<Rightarrow> error + unicode" where
  "get_body_from_part (Part mt bd ps) =
     (case (case ps of None \<Rightarrow> Inr [] | Some subparts \<Rightarrow> get_body_from_parts subparts) of
        Inl e \<Rightarrow> Inl e
      | Inr b \<Rightarrow> if b \<noteq> [] then Inr b else own_body (Part mt bd ps))"
| "get_body_from_parts [] = Inr []"
| "get_body_from_parts (subpart # rest) =
     (case get_body_from_part subpart of
        Inl e \<Rightarrow> Inl e
      | Inr b \<Rightarrow> if b \<noteq> [] then Inr b else get_body_from_parts rest)"

text \<open>
  The reading of the search used to state what it returns: the parts in the order in
  which their own content is looked at (the sub-parts, in list order, before the part
  itself), and the first outcome in a list that is an exception or a non-empty string.
\<close>

fun dfs_part :: "part \<Rightarrow> part list" and dfs_part_list :: "part list \<Rightarrow> part list" where
  "dfs_part (Part mt bd ps) =
     (case ps of None \<Rightarrow> [] | Some subparts \<Rightarrow> dfs_part_list subparts) @ [Part mt bd ps]"
| "dfs_part_list [] = []"
| "dfs_part_list (p # ps) = dfs_part p @ dfs_part_list ps"

fun first_body :: "(error + unicode) list \<Rightarrow> error + unicode" where
  "first_body [] = Inr []"
| "first_body (r # rs) =
     (case r of Inl e \<Rightarrow> Inl e | Inr b \<Rightarrow> if b \<noteq> [] then Inr b else first_body rs)"

text \<open>The characters that the decoder reads as base64 digits.\<close>

definition b64_char :: "char \<Rightarrow> bool" where
  "b64_char c = (table_a2b_base64 (urlsafe_decode_translation c) \<noteq> None)"

subsection \<open>Regular expressions\<close>

text \<open>
  The fragment of Python's \<^verbatim>\<open>re\<close> that the code and \<^verbatim>\<open>strptime\<close> use: characters,
  character classes, sequence, alternation, the greedy repetition of a character class and
  named groups. \<open>matches r s\<close> lists the ways in which \<open>r\<close> matches a prefix of \<open>s\<close>, each
  with its groups and the rest of the input, in the order in which the backtracking
  matcher tries them: the left alternative first, the longest repetition first. The
  match that \<^verbatim>\<open>re.match\<close> reports is the first of the list.
\<close>

datatype 'c regex =
    Lit 'c
  | Cls "'c \<Rightarrow> bool"
  | Eps
  | Seq "'c regex" "'c regex"
  | Alt "'c regex" "'c regex"
  | Star "'c \<Rightarrow> bool"
  | Group string "'c regex"

type_synonym 'c groups = "(string \<times> 'c list) list"

fun star_rests :: "('c \<Rightarrow> bool) \<Rightarrow> 'c list \<Rightarrow> 'c list list" where
  "star_rests p [] = [[]]"
| "star_rests p (x # xs) = (if p x then star_rests p xs @ [x # xs] else [x # xs])"

fun matches :: "'c regex \<Rightarrow> 'c list \<Rightarrow> ('c groups \<times> 'c list) list" where
  "matches (Lit c) s = (case s of [] \<Rightarrow> [] | x # xs \<Rightarrow> if x = c then [([], xs)] else [])"
| "matches (Cls p) s = (case s of [] \<Rightarrow> [] | x # xs \<Rightarrow> if p x then [([], xs)] else [])"
| "matches Eps s = [([], s)]"
| "matches (Seq a b) s =
     concat (map (\<lambda>(g, r). map (\<lambda>(g', r'). (g @ g', r')) (matches b r)) (matches a s))"
| "matches (Alt a b) s = matches a s @ matches b s"
| "matches (Star p) s = map (Pair []) (star_rests p s)"
| "matches (Group n a) s =
     map (\<lambda>(g, r). ((n, take (length s - length r) s) # g, r)) (matches a s)"

definition re_match :: "'c regex \<Rightarrow> 'c list \<Rightarrow> ('c groups \<times> 'c list) option" where
  "re_match r s = (case matches r s of [] \<Rightarrow> None | m # _ \<Rightarrow> Some m)"

text \<open>
  \<^verbatim>\<open>re.sub(pattern, repl, s)\<close> for a pattern that matches no empty string, as the three
  patterns of \<open>clean_html\<close> are: scan from the left, replace a match and go on behind it,
  keep a character at which nothing matches. (An empty match copies the character; the
  branch is there for the recursion to be well-founded and is not reached by those
  patterns.)
\<close>

fun re_sub :: "'c regex \<Rightarrow> 'c list \<Rightarrow> 'c list \<Rightarrow> 'c list" where
  "re_sub r repl [] = []"
| "re_sub r repl (x # xs) =
     (case re_match r (x # xs) of
        None \<Rightarrow> x # re_sub r repl xs
      | Some (g, rest) \<Rightarrow>
          if length rest < Suc (length xs) then repl @ re_sub r repl rest
          else x # re_sub r repl xs)"

declare re_sub.simps(2) [simp del]

text \<open>
  Two notions for reasoning about the matcher. \<open>last_lit p c s\<close> is what is left of \<open>s\<close>
  behind the first match of a greedy repetition of the class \<open>p\<close> followed by the
  character \<open>c\<close>: the repetition gives back characters until \<open>c\<close> follows.
  \<open>del P s t\<close> says that \<open>t\<close> is \<open>s\<close> with some characters deleted, each of which satisfies
  \<open>P\<close>.
\<close>

fun last_lit :: "('c \<Rightarrow> bool) \<Rightarrow> 'c \<Rightarrow> 'c list \<Rightarrow> 'c list option" where
  "last_lit p c [] = None"
| "last_lit p c (x # xs) =
     (if p x then (case last_lit p c xs of Some r \<Rightarrow> Some r
                   | None \<Rightarrow> if x = c then Some xs else None)
      else if x = c then Some xs else None)"

definition star_lit :: "('c \<Rightarrow> bool) \<Rightarrow> 'c \<Rightarrow> 'c list \<Rightarrow> ('c groups \<times> 'c list) list" where
  "star_lit p c s = concat (map (\<lambda>r. case r of [] \<Rightarrow> [] | x # xs \<Rightarrow> if x = c then [([], xs)] else [])
     (star_rests p s))"

inductive del :: "('c \<Rightarrow> bool) \<Rightarrow> 'c list \<Rightarrow> 'c list \<Rightarrow> bool" for P where
  del_Nil: "del P [] []"
| del_keep: "del P s t \<Longrightarrow> del P (x # s) (x # t)"
| del_drop: "P x \<Longrightarrow> del P s t \<Longrightarrow> del P (x # s) t"

subsection \<open>HTML cleanup\<close>

text \<open>
  The characters that \<^verbatim>\<open>\s\<close> matches in a \<^verbatim>\<open>str\<close> pattern and that \<^verbatim>\<open>str.strip()\<close> removes:
  Unicode white space.
\<close>

definition is_space :: "nat \<Rightarrow> bool" where
  "is_space c =
     ((9 \<le> c \<and> c \<le> 13) \<or> (28 \<le> c \<and> c \<le> 32) \<or> c = 0x85 \<or> c = 0xA0 \<or> c = 0x1680
      \<or> (0x2000 \<le> c \<and> c \<le> 0x200A) \<or> c = 0x2028 \<or> c = 0x2029 \<or> c = 0x202F
      \<or> c = 0x205F \<or> c = 0x3000)"

definition strip :: "unicode \<Rightarrow> unicode" where
  "strip s = rev (dropWhile is_space (rev (dropWhile is_space s)))"

text \<open>A \<^verbatim>\<open>str\<close> literal of ASCII characters as a list of code points.\<close>

definition ustr :: "string \<Rightarrow> unicode" where
  "ustr s = map of_char s"

definition LT :: nat where "LT = 60"    \<comment> \<open>the character \<^verbatim>\<open><\<close>\<close>
definition GT :: nat where "GT = 62"    \<comment> \<open>the character \<^verbatim>\<open>>\<close>\<close>
definition LF :: nat where "LF = 10"    \<comment> \<open>the line feed \<^verbatim>\<open>\n\<close>\<close>
definition SP :: nat where "SP = 32"    \<comment> \<open>the space\<close>

text \<open>\<^verbatim>\<open><[^>]+>\<close>, \<^verbatim>\<open>\n\s*\n\<close> and \<^verbatim>\<open> +\<close>\<close>

definition tag_re :: "nat regex" where
  "tag_re = Seq (Lit LT) (Seq (Seq (Cls (\<lambda>c. c \<noteq> GT)) (Star (\<lambda>c. c \<noteq> GT))) (Lit GT))"

definition blank_re :: "nat regex" where
  "blank_re = Seq (Lit LF) (Seq (Star is_space) (Lit LF))"

definition spaces_re :: "nat regex" where
  "spaces_re = Seq (Lit SP) (Star (\<lambda>c. c = SP))"

definition clean_html :: "unicode \<Rightarrow> unicode" where
  "clean_html html_content =
     (if html_content = [] then []
      else
        let clean_text = re_sub tag_re [] html_content;
            clean_text = re_sub blank_re [LF, LF] clean_text;
            clean_text = re_sub spaces_re [SP] clean_text
        in strip clean_text)"

text \<open>
  What the cleanup is to achieve, as predicates on its result: no tag (a \<^verbatim>\<open><\<close>, then at
  least one character other than \<^verbatim>\<open>>\<close>, then \<^verbatim>\<open>>\<close>) is left; two line feeds with only
  white space between them are adjacent, so that at most one blank line, an empty one,
  stands between two lines; no two spaces are adjacent.
\<close>

definition no_tag :: "nat list \<Rightarrow> bool" where
  "no_tag t = (\<forall>pre a post. t = pre @ LT # a @ GT # post \<longrightarrow> a = [] \<or> GT \<in> set a)"

definition blank_ok :: "nat list \<Rightarrow> bool" where
  "blank_ok t = (\<forall>pre w post. t = pre @ LF # w @ LF # post \<and> list_all is_space w \<longrightarrow> w = [])"

definition spaces_ok :: "nat list \<Rightarrow> bool" where
  "spaces_ok t = (\<forall>pre post. t \<noteq> pre @ SP # SP # post)"

text \<open>
  The third step in the words of the specification, without a regular expression: a run of
  spaces becomes one space, that is, a space that is followed by a space is dropped.
  \<open>collapse_spaces\<close> is compared with the substitution of the source below.
\<close>

fun collapse_spaces :: "nat list \<Rightarrow> nat list" where
  "collapse_spaces (x # y # s) =
     (if x = SP \<and> y = SP then collapse_spaces (y # s) else x # collapse_spaces (y # s))"
| "collapse_spaces s = s"

subsection \<open>Calendar and datetime values\<close>

text \<open>
  The proleptic Gregorian calendar of Python's \<^verbatim>\<open>datetime\<close> module (the functions
  \<^verbatim>\<open>_is_leap\<close>, \<^verbatim>\<open>_days_before_year\<close>, \<^verbatim>\<open>_days_in_month\<close>, \<^verbatim>\<open>_days_before_month\<close>,
  \<^verbatim>\<open>_ymd2ord\<close> and \<^verbatim>\<open>_ord2ymd\<close>, here without the leading underscore). Python's integers
  are unbounded and its \<^verbatim>\<open>//\<close> and \<^verbatim>\<open>%\<close> round towards minus infinity, as \<open>div\<close> and \<open>mod\<close>
  on \<open>int\<close> do.
\<close>

definition MINYEAR :: int where "MINYEAR = 1"
definition MAXYEAR :: int where "MAXYEAR = 9999"
definition MAXORDINAL :: int where "MAXORDINAL = 3652059"

definition is_leap :: "int \<Rightarrow> bool" where
  "is_leap year = (year mod 4 = 0 \<and> (year mod 100 \<noteq> 0 \<or> year mod 400 = 0))"

definition days_before_year :: "int \<Rightarrow> int" where
  "days_before_year year = (let y = year - 1 in y * 365 + y div 4 - y div 100 + y div 400)"

text \<open>The tables \<^verbatim>\<open>_DAYS_IN_MONTH\<close> and \<^verbatim>\<open>_DAYS_BEFORE_MONTH\<close>, for the months 1 to 12.\<close>

definition DAYS_IN_MONTH :: "int \<Rightarrow> int" where
  "DAYS_IN_MONTH month = [31, 28, 31, 30, 31, 30, 31, 31, 30, 31, 30, 31] ! nat (month - 1)"

definition DAYS_BEFORE_MONTH :: "int \<Rightarrow> int" where
  "DAYS_BEFORE_MONTH month =
     [0, 31, 59, 90, 120, 151, 181, 212, 243, 273, 304, 334] ! nat (month - 1)"

definition days_in_month :: "int \<Rightarrow> int \<Rightarrow> int" where
  "days_in_month year month = (if month = 2 \<and> is_leap year then 29 else DAYS_IN_MONTH month)"

definition days_before_month :: "int \<Rightarrow> int \<Rightarrow> int" where
  "days_before_month year month =
     DAYS_BEFORE_MONTH month + (if month > 2 \<and> is_leap year then 1 else 0)"

definition ymd2ord :: "int \<Rightarrow> int \<Rightarrow> int \<Rightarrow> int" where
  "ymd2ord year month day = days_before_year year + days_before_month year month + day"

definition ord2ymd :: "int \<Rightarrow> int \<times> int \<times> int" where
  "ord2ymd ordinal =
     (let n = ordinal - 1;
          n400 = n div 146097; n = n mod 146097;
          year = n400 * 400 + 1;
          n100 = n div 36524; n = n mod 36524;
          n4 = n div 1461; n = n mod 1461;
          n1 = n div 365; n = n mod 365;
          year = year + n100 * 100 + n4 * 4 + n1
      in if n1 = 4 \<or> n100 = 4 then (year - 1, 12, 31)
         else
           let leapyear = (n1 = 3 \<and> (n4 \<noteq> 24 \<or> n100 = 3));
               month = (n + 50) div 32;
               preceding = DAYS_BEFORE_MONTH month + (if month > 2 \<and> leapyear then 1 else 0)
           in if preceding > n then
                let month = month - 1;
                    preceding = preceding
                      - (DAYS_IN_MONTH month + (if month = 2 \<and> leapyear then 1 else 0))
                in (year, month, n - preceding + 1)
              else (year, month, n - preceding + 1))"

text \<open>
  A \<^verbatim>\<open>datetime\<close>. The time zone of an aware value is a fixed offset from UTC
  (\<^verbatim>\<open>datetime.timezone\<close>), kept in microseconds, as a \<^verbatim>\<open>timedelta\<close> is a count of
  microseconds; \<open>None\<close> is a naive value.
\<close>

record datetime =
  year :: int
  month :: int
  day :: int
  hour :: int
  minute :: int
  second :: int
  microsecond :: int
  tzinfo :: "int option"

text \<open>\<^verbatim>\<open>_check_date_fields\<close> and \<^verbatim>\<open>_check_time_fields\<close>: what the constructors accept.\<close>

definition check_date_fields :: "int \<Rightarrow> int \<Rightarrow> int \<Rightarrow> bool" where
  "check_date_fields y m d =
     (MINYEAR \<le> y \<and> y \<le> MAXYEAR \<and> 1 \<le> m \<and> m \<le> 12 \<and> 1 \<le> d \<and> d \<le> days_in_month y m)"

definition check_time_fields :: "int \<Rightarrow> int \<Rightarrow> int \<Rightarrow> int \<Rightarrow> bool" where
  "check_time_fields hh mm ss us =
     (0 \<le> hh \<and> hh \<le> 23 \<and> 0 \<le> mm \<and> mm \<le> 59 \<and> 0 \<le> ss \<and> ss \<le> 59 \<and> 0 \<le> us \<and> us \<le> 999999)"

text \<open>
  \<^verbatim>\<open>timezone(offset)\<close> accepts an offset strictly between minus and plus 24 hours.
\<close>

definition check_offset :: "int \<Rightarrow> bool" where
  "check_offset off = (- 86400000000 < off \<and> off < 86400000000)"

definition datetime_new ::
  "int \<Rightarrow> int \<Rightarrow> int \<Rightarrow> int \<Rightarrow> int \<Rightarrow> int \<Rightarrow> int \<Rightarrow> int option \<Rightarrow> error + datetime" where
  "datetime_new y m d hh mm ss us tz =
     (if check_date_fields y m d \<and> check_time_fields hh mm ss us
      then Inr \<lparr>year = y, month = m, day = d, hour = hh, minute = mm, second = ss,
                microsecond = us, tzinfo = tz\<rparr>
      else Inl ValueError)"

text \<open>The values that exist in Python: every \<^verbatim>\<open>datetime\<close> has passed the constructor.\<close>

definition valid_datetime :: "datetime \<Rightarrow> bool" where
  "valid_datetime dt =
     (check_date_fields (year dt) (month dt) (day dt)
      \<and> check_time_fields (hour dt) (minute dt) (second dt) (microsecond dt)
      \<and> (case tzinfo dt of None \<Rightarrow> True | Some off \<Rightarrow> check_offset off))"

text \<open>
  \<^verbatim>\<open>datetime.__add__\<close> with a \<^verbatim>\<open>timedelta\<close> of \<open>delta\<close> microseconds; \<^verbatim>\<open>dt - timedelta(days=k)\<close>
  is \<^verbatim>\<open>dt + (-timedelta(days=k))\<close>.
\<close>

definition datetime_add :: "datetime \<Rightarrow> int \<Rightarrow> error + datetime" where
  "datetime_add dt delta =
     (let total = ymd2ord (year dt) (month dt) (day dt) * 86400000000
                  + hour dt * 3600000000 + minute dt * 60000000 + second dt * 1000000
                  + microsecond dt + delta;
          days = total div 86400000000;
          seconds = (total mod 86400000000) div 1000000;
          us = total mod 1000000
      in if 0 < days \<and> days \<le> MAXORDINAL then
           (case ord2ymd days of (y, m, d) \<Rightarrow>
              Inr \<lparr>year = y, month = m, day = d, hour = seconds div 3600,
                    minute = (seconds mod 3600) div 60, second = seconds mod 60,
                    microsecond = us, tzinfo = tzinfo dt\<rparr>)
         else Inl OverflowError)"

definition timedelta_days :: "int \<Rightarrow> int" where
  "timedelta_days k = k * 86400000000"

subsection \<open>Characters, numbers and their text\<close>

definition is_digit :: "char \<Rightarrow> bool" where
  "is_digit c = (48 \<le> (of_char c :: nat) \<and> (of_char c :: nat) \<le> 57)"

definition digit_val :: "char \<Rightarrow> int" where
  "digit_val c = int (of_char c) - 48"

definition int_of_digits :: "string \<Rightarrow> int" where
  "int_of_digits s = foldl (\<lambda>a c. 10 * a + digit_val c) 0 s"

text \<open>White space among the characters of a \<open>string\<close>.\<close>

definition is_space_char :: "char \<Rightarrow> bool" where
  "is_space_char c = is_space (of_char c)"

text \<open>
  \<^verbatim>\<open>int(s)\<close> for a \<^verbatim>\<open>str\<close>: white space around the number, an optional sign, decimal digits
  with single underscores between them; anything else is a \<^verbatim>\<open>ValueError\<close>.
\<close>

fun digit_groups :: "string \<Rightarrow> bool" where
  "digit_groups [] = False"
| "digit_groups [c] = is_digit c"
| "digit_groups (c # d # cs) =
     (is_digit c \<and> (if d = CHR ''_'' then digit_groups cs else digit_groups (d # cs)))"

definition py_int :: "string \<Rightarrow> error + int" where
  "py_int s =
     (let t = rev (dropWhile is_space_char (rev (dropWhile is_space_char s)));
          neg = (t \<noteq> [] \<and> hd t = CHR ''-'');
          body = (if t \<noteq> [] \<and> (hd t = CHR ''-'' \<or> hd t = CHR ''+'') then tl t else t)
      in if digit_groups body
         then Inr ((if neg then - 1 else 1) * int_of_digits (filter (\<lambda>c. c \<noteq> CHR ''_'') body))
         else Inl ValueError)"

text \<open>The decimal text of a natural number, and \<^verbatim>\<open>'%0wd' % n\<close> for \<open>n \<ge> 0\<close>.\<close>

definition digit_char :: "nat \<Rightarrow> char" where
  "digit_char n = char_of (48 + n)"

fun digits_fuel :: "nat \<Rightarrow> nat \<Rightarrow> string" where
  "digits_fuel 0 n = []"
| "digits_fuel (Suc k) n =
     (if n < 10 then [digit_char n] else digits_fuel k (n div 10) @ [digit_char (n mod 10)])"

definition str_nat :: "nat \<Rightarrow> string" where
  "str_nat n = digits_fuel (Suc n) n"

definition zero_pad :: "nat \<Rightarrow> int \<Rightarrow> string" where
  "zero_pad w n = (let t = str_nat (nat n) in replicate (w - length t) CHR ''0'' @ t)"

subsection \<open>\<^verbatim>\<open>datetime.strptime\<close>\<close>

text \<open>
  Modelled after \<^verbatim>\<open>_strptime.py\<close> of CPython 3.11 for the directives that the formats of
  this repository use (\<^verbatim>\<open>%Y %m %d %H %M %S %a %b %z\<close>), in the C locale. The format is
  turned into a regular expression that is compiled with \<^verbatim>\<open>re.IGNORECASE\<close>: a directive
  becomes its named group, a run of white space becomes \<^verbatim>\<open>\s+\<close>, any other character
  stands for itself. The data must match from its start, and the match must end where
  the data ends.
\<close>

definition ascii_lower :: "char \<Rightarrow> char" where
  "ascii_lower c =
     (if 65 \<le> (of_char c :: nat) \<and> (of_char c :: nat) \<le> 90 then char_of (of_char c + 32 :: nat)
      else c)"

definition ci :: "char \<Rightarrow> char regex" where
  "ci c = Cls (\<lambda>x. ascii_lower x = ascii_lower c)"

definition rng :: "char \<Rightarrow> char \<Rightarrow> char regex" where
  "rng a b = Cls (\<lambda>c. (of_char a :: nat) \<le> of_char c \<and> (of_char c :: nat) \<le> of_char b)"

definition D :: "char regex" where
  "D = Cls is_digit"

definition opt :: "'c regex \<Rightarrow> 'c regex" where
  "opt r = Alt r Eps"

fun alts :: "'c regex list \<Rightarrow> 'c regex" where
  "alts [] = Eps"
| "alts [r] = r"
| "alts (r # rs) = Alt r (alts rs)"

definition word :: "string \<Rightarrow> char regex" where
  "word w = foldr (\<lambda>c r. Seq (ci c) r) w Eps"

definition a_weekday :: "string list" where
  "a_weekday = [''mon'', ''tue'', ''wed'', ''thu'', ''fri'', ''sat'', ''sun'']"

definition a_month :: "string list" where
  "a_month = [[], ''jan'', ''feb'', ''mar'', ''apr'', ''may'', ''jun'', ''jul'', ''aug'',
              ''sep'', ''oct'', ''nov'', ''dec'']"

text \<open>
  The entries of \<^verbatim>\<open>TimeRE\<close>:
  \<^verbatim>\<open>d: (?P<d>3[0-1]|[1-2]\d|0[1-9]|[1-9]| [1-9])\<close>,
  \<^verbatim>\<open>H: (?P<H>2[0-3]|[0-1]\d|\d)\<close>,
  \<^verbatim>\<open>m: (?P<m>1[0-2]|0[1-9]|[1-9])\<close>,
  \<^verbatim>\<open>M: (?P<M>[0-5]\d|\d)\<close>,
  \<^verbatim>\<open>S: (?P<S>6[0-1]|[0-5]\d|\d)\<close>,
  \<^verbatim>\<open>Y: (?P<Y>\d\d\d\d)\<close>,
  \<^verbatim>\<open>z: (?P<z>[+-]\d\d:?[0-5]\d(:?[0-5]\d(\.\d{1,6})?)?|(?-i:Z))\<close>,
  and the abbreviated weekday and month names for \<^verbatim>\<open>a\<close> and \<^verbatim>\<open>b\<close>. The other directives of
  Python are not modelled: \<open>directive\<close> is \<open>None\<close> for them as for a character that is no
  directive.
\<close>

definition z_regex :: "char regex" where
  "z_regex =
     (let digits_1_6 = Seq D (opt (Seq D (opt (Seq D (opt (Seq D (opt (Seq D (opt D)))))))));
          fraction = opt (Seq (Lit CHR ''.'') digits_1_6);
          seconds = opt (Seq (opt (Lit CHR '':'')) (Seq (rng CHR ''0'' CHR ''5'') (Seq D fraction)));
          offset = Seq (Cls (\<lambda>x. x = CHR ''+'' \<or> x = CHR ''-''))
                     (Seq D (Seq D (Seq (opt (Lit CHR '':''))
                       (Seq (rng CHR ''0'' CHR ''5'') (Seq D seconds)))))
      in Alt offset (Lit CHR ''Z''))"

definition directive :: "char \<Rightarrow> char regex option" where
  "directive c =
     (if c = CHR ''d'' then
        Some (Group ''d'' (alts [Seq (Lit CHR ''3'') (rng CHR ''0'' CHR ''1''),
                                Seq (rng CHR ''1'' CHR ''2'') D,
                                Seq (Lit CHR ''0'') (rng CHR ''1'' CHR ''9''),
                                rng CHR ''1'' CHR ''9'',
                                Seq (Lit CHR '' '') (rng CHR ''1'' CHR ''9'')]))
      else if c = CHR ''H'' then
        Some (Group ''H'' (alts [Seq (Lit CHR ''2'') (rng CHR ''0'' CHR ''3''),
                                Seq (rng CHR ''0'' CHR ''1'') D, D]))
      else if c = CHR ''m'' then
        Some (Group ''m'' (alts [Seq (Lit CHR ''1'') (rng CHR ''0'' CHR ''2''),
                                Seq (Lit CHR ''0'') (rng CHR ''1'' CHR ''9''),
                                rng CHR ''1'' CHR ''9'']))
      else if c = CHR ''M'' then
        Some (Group ''M'' (alts [Seq (rng CHR ''0'' CHR ''5'') D, D]))
      else if c = CHR ''S'' then
        Some (Group ''S'' (alts [Seq (Lit CHR ''6'') (rng CHR ''0'' CHR ''1''),
                                Seq (rng CHR ''0'' CHR ''5'') D, D]))
      else if c = CHR ''Y'' then
        Some (Group ''Y'' (Seq D (Seq D (Seq D D))))
      else if c = CHR ''z'' then Some (Group ''z'' z_regex)
      else if c = CHR ''a'' then Some (Group ''a'' (alts (map word a_weekday)))
      else if c = CHR ''b'' then Some (Group ''b'' (alts (map word (tl a_month))))
      else if c = CHR ''%'' then Some (Lit CHR ''%'')
      else None)"

text \<open>
  \<^verbatim>\<open>TimeRE.pattern\<close>. A run of white space in the format yields one \<^verbatim>\<open>\s+\<close>, put here at
  the last character of the run. A \<^verbatim>\<open>%\<close> with nothing or with no directive behind it is
  a \<^verbatim>\<open>ValueError\<close>.
\<close>

fun pattern :: "string \<Rightarrow> error + char regex" where
  "pattern [] = Inr Eps"
| "pattern [c] =
     (if c = CHR ''%'' then Inl ValueError
      else if is_space_char c then Inr (Seq (Seq (Cls is_space_char) (Star is_space_char)) Eps)
      else Inr (Seq (ci c) Eps))"
| "pattern (c # c' # cs) =
     (if c = CHR ''%'' then
        (case directive c' of
           None \<Rightarrow> Inl ValueError
         | Some r \<Rightarrow> (case pattern cs of Inl e \<Rightarrow> Inl e | Inr rest \<Rightarrow> Inr (Seq r rest)))
      else
        (case pattern (c' # cs) of
           Inl e \<Rightarrow> Inl e
         | Inr rest \<Rightarrow>
             if is_space_char c then
               (if is_space_char c' then Inr rest
                else Inr (Seq (Seq (Cls is_space_char) (Star is_space_char)) rest))
             else Inr (Seq (ci c) rest)))"

text \<open>
  The local variables of \<^verbatim>\<open>_strptime\<close> that those directives set, with their initial
  values, and the loop over the groups of the match.
\<close>

record strptime_fields =
  f_year :: "int option"
  f_month :: int
  f_day :: int
  f_hour :: int
  f_minute :: int
  f_second :: int
  f_weekday :: "int option"
  f_gmtoff :: "int option"
  f_gmtoff_fraction :: int

definition initial_fields :: strptime_fields where
  "initial_fields = \<lparr>f_year = None, f_month = 1, f_day = 1, f_hour = 0, f_minute = 0,
     f_second = 0, f_weekday = None, f_gmtoff = None, f_gmtoff_fraction = 0\<rparr>"

definition and_then :: "error + 'a \<Rightarrow> ('a \<Rightarrow> error + 'b) \<Rightarrow> error + 'b" where
  "and_then m f = (case m of Inl e \<Rightarrow> Inl e | Inr x \<Rightarrow> f x)"

text \<open>\<^verbatim>\<open>xs.index(x)\<close>\<close>

fun list_index :: "'a list \<Rightarrow> 'a \<Rightarrow> error + int" where
  "list_index [] x = Inl ValueError"
| "list_index (y # ys) x =
     (if y = x then Inr 0 else and_then (list_index ys x) (\<lambda>i. Inr (i + 1)))"

text \<open>\<^verbatim>\<open>s[i:j]\<close> for \<open>0 \<le> i \<le> j\<close>, and \<^verbatim>\<open>s[i]\<close>\<close>

definition slice :: "nat \<Rightarrow> nat \<Rightarrow> 'a list \<Rightarrow> 'a list" where
  "slice i j s = take (j - i) (drop i s)"

definition char_at :: "string \<Rightarrow> nat \<Rightarrow> error + char" where
  "char_at s i = (if i < length s then Inr (s ! i) else Inl IndexError)"

text \<open>The branch of the loop for the group \<^verbatim>\<open>z\<close>: the offset in seconds and its fraction.\<close>

definition parse_z :: "string \<Rightarrow> error + int \<times> int" where
  "parse_z z0 =
     (if z0 = ''Z'' then Inr (0, 0)
      else
        and_then (char_at z0 3) (\<lambda>c3.
        and_then
          (if c3 = CHR '':'' then
             (let z = take 3 z0 @ drop 4 z0 in
              if length z > 5 then
                and_then (char_at z 5) (\<lambda>c5.
                  if c5 \<noteq> CHR '':'' then Inl ValueError else Inr (take 5 z @ drop 6 z))
              else Inr z)
           else Inr z0) (\<lambda>z.
        and_then (py_int (slice 1 3 z)) (\<lambda>hours.
        and_then (py_int (slice 3 5 z)) (\<lambda>minutes.
        and_then (if slice 5 7 z = [] then Inr 0 else py_int (slice 5 7 z)) (\<lambda>seconds.
        let gmtoff = hours * 60 * 60 + minutes * 60 + seconds;
            gmtoff_remainder = drop 8 z;
            gmtoff_remainder_padding = replicate (6 - length gmtoff_remainder) CHR ''0''
        in and_then (py_int (gmtoff_remainder @ gmtoff_remainder_padding)) (\<lambda>gmtoff_fraction.
             if z \<noteq> [] \<and> hd z = CHR ''-'' then Inr (- gmtoff, - gmtoff_fraction)
             else Inr (gmtoff, gmtoff_fraction))))))))"

definition strptime_group :: "string \<times> string \<Rightarrow> strptime_fields \<Rightarrow> error + strptime_fields" where
  "strptime_group g f =
     (case g of (group_key, text) \<Rightarrow>
        if group_key = ''Y'' then and_then (py_int text) (\<lambda>v. Inr (f\<lparr>f_year := Some v\<rparr>))
        else if group_key = ''m'' then and_then (py_int text) (\<lambda>v. Inr (f\<lparr>f_month := v\<rparr>))
        else if group_key = ''b'' then
          and_then (list_index a_month (map ascii_lower text)) (\<lambda>v. Inr (f\<lparr>f_month := v\<rparr>))
        else if group_key = ''d'' then and_then (py_int text) (\<lambda>v. Inr (f\<lparr>f_day := v\<rparr>))
        else if group_key = ''H'' then and_then (py_int text) (\<lambda>v. Inr (f\<lparr>f_hour := v\<rparr>))
        else if group_key = ''M'' then and_then (py_int text) (\<lambda>v. Inr (f\<lparr>f_minute := v\<rparr>))
        else if group_key = ''S'' then and_then (py_int text) (\<lambda>v. Inr (f\<lparr>f_second := v\<rparr>))
        else if group_key = ''a'' then
          and_then (list_index a_weekday (map ascii_lower text))
            (\<lambda>v. Inr (f\<lparr>f_weekday := Some v\<rparr>))
        else if group_key = ''z'' then
          and_then (parse_z text)
            (\<lambda>(off, frac). Inr (f\<lparr>f_gmtoff := Some off, f_gmtoff_fraction := frac\<rparr>))
        else Inr f)"

fun strptime_groups :: "(string \<times> string) list \<Rightarrow> strptime_fields \<Rightarrow> error + strptime_fields" where
  "strptime_groups [] f = Inr f"
| "strptime_groups (g # gs) f = and_then (strptime_group g f) (strptime_groups gs)"

text \<open>
  \<^verbatim>\<open>datetime.strptime(data_string, format)\<close>: the match, the loop, the default year (with
  the fix for a 29 February without a year), the check of the date that computing the
  day of the year makes, and the construction of the time zone and of the value in
  \<^verbatim>\<open>_strptime_datetime\<close>.
\<close>

definition strptime :: "string \<Rightarrow> string \<Rightarrow> error + datetime" where
  "strptime data_string format =
     and_then (pattern format) (\<lambda>format_regex.
       case re_match format_regex data_string of
         None \<Rightarrow> Inl ValueError
       | Some (found, rest) \<Rightarrow>
           if rest \<noteq> [] then Inl ValueError
           else
             and_then (strptime_groups found initial_fields) (\<lambda>f.
               let leap_year_fix = (f_year f = None \<and> f_month f = 2 \<and> f_day f = 29);
                   y = (case f_year f of Some y \<Rightarrow> y
                        | None \<Rightarrow> if leap_year_fix then 1904 else 1900)
               in if \<not> check_date_fields y (f_month f) (f_day f) then Inl ValueError
                  else
                    let y = (if leap_year_fix then 1900 else y) in
                    (case f_gmtoff f of
                       None \<Rightarrow>
                         datetime_new y (f_month f) (f_day f) (f_hour f) (f_minute f)
                           (f_second f) 0 None
                     | Some gmtoff \<Rightarrow>
                         let tzdelta = gmtoff * 1000000 + f_gmtoff_fraction f in
                         if \<not> check_offset tzdelta then Inl ValueError
                         else datetime_new y (f_month f) (f_day f) (f_hour f) (f_minute f)
                                (f_second f) 0 (Some tzdelta))))"

subsection \<open>Formatting a datetime\<close>

text \<open>
  \<^verbatim>\<open>_format_time\<close> with \<^verbatim>\<open>timespec='auto'\<close>, \<^verbatim>\<open>_format_offset\<close> and \<^verbatim>\<open>datetime.isoformat()\<close>.
\<close>

definition format_time :: "int \<Rightarrow> int \<Rightarrow> int \<Rightarrow> int \<Rightarrow> string" where
  "format_time hh mm ss us =
     zero_pad 2 hh @ '':'' @ zero_pad 2 mm @ '':'' @ zero_pad 2 ss
       @ (if us \<noteq> 0 then ''.'' @ zero_pad 6 us else [])"

definition format_offset :: "int option \<Rightarrow> string" where
  "format_offset off =
     (case off of
        None \<Rightarrow> []
      | Some off \<Rightarrow>
          let sign = (if off < 0 then ''-'' else ''+'');
              off = (if off < 0 then - off else off);
              hh = off div 3600000000; mm = off mod 3600000000;
              ss = mm mod 60000000; mm = mm div 60000000
          in sign @ zero_pad 2 hh @ '':'' @ zero_pad 2 mm
               @ (if ss \<noteq> 0 then
                    '':'' @ zero_pad 2 (ss div 1000000)
                      @ (if ss mod 1000000 \<noteq> 0 then ''.'' @ zero_pad 6 (ss mod 1000000) else [])
                  else []))"

definition isoformat :: "datetime \<Rightarrow> string" where
  "isoformat dt =
     zero_pad 4 (year dt) @ ''-'' @ zero_pad 2 (month dt) @ ''-'' @ zero_pad 2 (day dt) @ ''T''
       @ format_time (hour dt) (minute dt) (second dt) (microsecond dt)
       @ format_offset (tzinfo dt)"

text \<open>
  \<^verbatim>\<open>strftime\<close> is the C library's. Its \<^verbatim>\<open>%m %d %H %M %S\<close> are two digits; its \<^verbatim>\<open>%Y\<close> is the
  year in decimal, which glibc does not pad (other platforms pad it to four digits: the
  two agree from the year 1000 on).
\<close>

definition strftime_Y :: "datetime \<Rightarrow> string" where
  "strftime_Y dt = str_nat (nat (year dt))"

text \<open>\<^verbatim>\<open>dt.strftime('%Y-%m-%d %H:%M:%S')\<close> and \<^verbatim>\<open>dt.strftime('%Y/%m/%d')\<close>\<close>

definition strftime_readable :: "datetime \<Rightarrow> string" where
  "strftime_readable dt =
     strftime_Y dt @ ''-'' @ zero_pad 2 (month dt) @ ''-'' @ zero_pad 2 (day dt) @ '' ''
       @ zero_pad 2 (hour dt) @ '':'' @ zero_pad 2 (minute dt) @ '':'' @ zero_pad 2 (second dt)"

definition format_date_for_gmail :: "datetime \<Rightarrow> string" where
  "format_date_for_gmail date =
     strftime_Y date @ ''/'' @ zero_pad 2 (month date) @ ''/'' @ zero_pad 2 (day date)"

subsection \<open>\<^verbatim>\<open>datetime.fromisoformat\<close>\<close>

text \<open>
  \<^verbatim>\<open>datetime.fromisoformat\<close> is the C function \<^verbatim>\<open>datetime_fromisoformat\<close> of CPython 3.11
  (\<^verbatim>\<open>Modules/_datetimemodule.c\<close>), modelled here with its helpers \<^verbatim>\<open>parse_digits\<close>,
  \<^verbatim>\<open>_find_isoformat_datetime_separator\<close>, \<^verbatim>\<open>parse_isoformat_date\<close>, \<^verbatim>\<open>iso_to_ymd\<close>,
  \<^verbatim>\<open>iso_week1_monday\<close>, \<^verbatim>\<open>parse_hh_mm_ss_ff\<close>, \<^verbatim>\<open>parse_isoformat_time\<close> and
  \<^verbatim>\<open>tzinfo_from_isoformat_results\<close>. The C code works on the UTF-8 bytes of the string: a
  pointer is a position in the bytes, and the byte behind the last one is the terminating
  \<^verbatim>\<open>NUL\<close>. Every negative return code ends in a \<^verbatim>\<open>ValueError\<close>.

  A \<open>string\<close> holds code points below 256, so a character is one byte or two in UTF-8.
\<close>

definition as_utf8 :: "string \<Rightarrow> string" where
  "as_utf8 s =
     concat (map (\<lambda>c. if (of_char c :: nat) < 128 then [c]
                        else [char_of (192 + (of_char c :: nat) div 64),
                              char_of (128 + (of_char c :: nat) mod 64)]) s)"

text \<open>\<^verbatim>\<open>*p\<close> for a pointer into the bytes or at their end.\<close>

definition byte_at :: "string \<Rightarrow> nat \<Rightarrow> char" where
  "byte_at s p = (if p < length s then s ! p else CHR 0x00)"

text \<open>
  \<^verbatim>\<open>parse_digits(ptr, var, num_digits)\<close>: the value of the next \<open>num_digits\<close> bytes, which must
  all be ASCII digits, and the pointer behind them. The C function returns \<^verbatim>\<open>NULL\<close> at
  the first byte that is no digit (the terminating \<^verbatim>\<open>NUL\<close> is none), which every caller
  turns into a negative return code.
\<close>

definition parse_digits :: "string \<Rightarrow> nat \<Rightarrow> nat \<Rightarrow> error + int \<times> nat" where
  "parse_digits s p num_digits =
     (let ds = take num_digits (drop p s) in
      if length ds = num_digits \<and> list_all is_digit ds
      then Inr (int_of_digits ds, p + num_digits)
      else Inl ValueError)"

text \<open>
  \<^verbatim>\<open>_find_isoformat_datetime_separator\<close>: the position of the character between date and
  time, or \<open>-1\<close>.
\<close>

definition find_isoformat_datetime_separator :: "string \<Rightarrow> int" where
  "find_isoformat_datetime_separator dtstr =
     (let len = length dtstr in
      if len = 7 then 7
      else if byte_at dtstr 4 = CHR ''-'' then
        (if byte_at dtstr 5 = CHR ''W'' then
           (if len < 8 then - 1
            else if len > 8 \<and> byte_at dtstr 8 = CHR ''-'' then
              (if len = 9 then - 1
               else if len > 10 \<and> is_digit (byte_at dtstr 10) then 8
               else 10)
            else 8)
         else 10)
      else if byte_at dtstr 4 = CHR ''W'' then
        (let idx = 7 + length (takeWhile is_digit (drop 7 dtstr)) in
         if idx < 9 then int idx
         else if idx mod 2 = 0 then 7
         else 8)
      else 8)"

definition iso_week1_monday :: "int \<Rightarrow> int" where
  "iso_week1_monday y =
     (let first_day = ymd2ord y 1 1;
          first_weekday = (first_day + 6) mod 7;
          week1_monday = first_day - first_weekday
      in if first_weekday > 3 then week1_monday + 7 else week1_monday)"

text \<open>
  \<^verbatim>\<open>iso_to_ymd\<close>. The year comes from four digits, so it is at most 9999. For the year 0
  the C code reaches \<^verbatim>\<open>ord_to_ymd\<close> with an ordinal below 1, which gives a month below 1
  that the constructor refuses: the first test stands for that.
\<close>

definition iso_to_ymd :: "int \<Rightarrow> int \<Rightarrow> int \<Rightarrow> error + int \<times> int \<times> int" where
  "iso_to_ymd iso_year iso_week iso_day =
     (if iso_year < MINYEAR then Inl ValueError
      else if (iso_week \<le> 0 \<or> iso_week \<ge> 53)
              \<and> \<not> (iso_week = 53 \<and> (let first_weekday = (ymd2ord iso_year 1 1 + 6) mod 7 in
                                         first_weekday = 3 \<or> (first_weekday = 2 \<and> is_leap iso_year)))
      then Inl ValueError
      else if iso_day \<le> 0 \<or> iso_day \<ge> 8 then Inl ValueError
      else
        let day_1 = iso_week1_monday iso_year;
            day_offset = (iso_week - 1) * 7 + iso_day - 1
        in Inr (ord2ymd (day_1 + day_offset)))"

text \<open>
  \<^verbatim>\<open>parse_isoformat_date(dtstr, len, ...)\<close>; \<open>len\<close> is the separator position as a
  \<^verbatim>\<open>size_t\<close>, so that \<open>-1\<close> is the largest value of the type.
\<close>

definition size_t :: "int \<Rightarrow> nat" where
  "size_t i = nat (i mod 2 ^ 64)"

definition parse_isoformat_date :: "string \<Rightarrow> nat \<Rightarrow> error + int \<times> int \<times> int" where
  "parse_isoformat_date dtstr len =
     and_then (parse_digits dtstr 0 4) (\<lambda>(year, p).
       let uses_separator = (byte_at dtstr p = CHR ''-'');
           p = (if uses_separator then p + 1 else p)
       in if byte_at dtstr p = CHR ''W'' then
            (let p = p + 1 in
             and_then (parse_digits dtstr p 2) (\<lambda>(iso_week, p).
             and_then
               (if p < len then
                  (if uses_separator \<and> byte_at dtstr p \<noteq> CHR ''-'' then Inl ValueError
                   else
                     let p = (if uses_separator then p + 1 else p)
                     in and_then (parse_digits dtstr p 1) (\<lambda>(iso_day, p). Inr iso_day))
                else Inr 1) (\<lambda>iso_day.
             iso_to_ymd year iso_week iso_day)))
          else
            and_then (parse_digits dtstr p 2) (\<lambda>(month, p).
              if uses_separator \<and> byte_at dtstr p \<noteq> CHR ''-'' then Inl ValueError
              else
                let p = (if uses_separator then p + 1 else p)
                in and_then (parse_digits dtstr p 2) (\<lambda>(day, p). Inr (year, month, day))))"

text \<open>
  The loop \<^verbatim>\<open>for (i = 0; i < 3; ++i)\<close> of \<^verbatim>\<open>parse_hh_mm_ss_ff\<close> over hour, minute and
  second. It ends in one of three ways: a negative return code (\<open>Inl\<close>); a \<^verbatim>\<open>return\<close> of
  \<^verbatim>\<open>c != '\0'\<close> at the end of the range (\<open>Inl\<close> of that truth value, beside the values);
  or, after a \<^verbatim>\<open>break\<close> or three rounds, with the pointer at which the fraction is read
  (\<open>Inr\<close> of it).
\<close>

fun hh_mm_ss_loop ::
  "nat list \<Rightarrow> bool \<Rightarrow> string \<Rightarrow> nat \<Rightarrow> nat \<Rightarrow> int list \<Rightarrow> error + int list \<times> (bool + nat)" where
  "hh_mm_ss_loop [] has_separator s p p_end vals = Inr (vals, Inr p)"
| "hh_mm_ss_loop (i # todo) has_separator s p p_end vals =
     and_then (parse_digits s p 2) (\<lambda>(v, p).
       let vals = vals[i := v];
           c = byte_at s p;
           p = p + 1;
           has_separator = (if i = 0 then c = CHR '':'' else has_separator)
       in if p \<ge> p_end then Inr (vals, Inl (c \<noteq> CHR 0x00))
          else if has_separator \<and> c = CHR '':'' then hh_mm_ss_loop todo has_separator s p p_end vals
          else if c = CHR ''.'' \<or> c = CHR '','' then Inr (vals, Inr p)
          else if \<not> has_separator then hh_mm_ss_loop todo has_separator s (p - 1) p_end vals
          else Inl ValueError)"

definition correction :: "nat \<Rightarrow> int" where
  "correction i = [100000, 10000, 1000, 100, 10] ! i"

text \<open>
  \<^verbatim>\<open>parse_hh_mm_ss_ff(tstr, tstr_end, ...)\<close> on the bytes from \<open>p\<close> to \<open>p_end\<close>: the four
  values and whether something is left behind them (the return codes 1 and 0). The
  fraction is read behind a \<^verbatim>\<open>.\<close> or \<^verbatim>\<open>,\<close> and also behind three components that were read
  in full; of more than six digits the rest is skipped; what is left is judged by the
  byte itself, not by \<open>p_end\<close>.
\<close>

definition parse_hh_mm_ss_ff :: "string \<Rightarrow> nat \<Rightarrow> nat \<Rightarrow> error + int list \<times> bool" where
  "parse_hh_mm_ss_ff s p p_end =
     and_then (hh_mm_ss_loop [0, 1, 2] True s p p_end [0, 0, 0, 0]) (\<lambda>(vals, r).
       case r of
         Inl rv \<Rightarrow> Inr (vals, rv)
       | Inr p \<Rightarrow>
           let len_remains = p_end - p;
               to_parse = (if len_remains \<ge> 6 then 6 else len_remains)
           in and_then (parse_digits s p to_parse) (\<lambda>(microsecond, p).
                let microsecond = (if to_parse < 6 then microsecond * correction (to_parse - 1)
                                   else microsecond);
                    p = p + length (takeWhile is_digit (drop p s))
                in Inr (vals[3 := microsecond], byte_at s p \<noteq> CHR 0x00)))"

text \<open>
  \<^verbatim>\<open>parse_isoformat_time(dtstr, dtlen, ...)\<close> on the \<open>dtlen\<close> bytes from \<open>p\<close>: the four values
  and, when there is an offset, its seconds and microseconds. The offset starts at the
  first \<^verbatim>\<open>Z\<close>, \<^verbatim>\<open>+\<close> or \<^verbatim>\<open>-\<close>; the \<^verbatim>\<open>do ... while (++tzinfo_pos < p_end)\<close> that looks for it
  tests the first byte even when \<open>dtlen\<close> is 0. When an offset follows, it does not matter
  what the first parse left unread.
\<close>

definition is_tz_start :: "char \<Rightarrow> bool" where
  "is_tz_start c = (c = CHR ''Z'' \<or> c = CHR ''+'' \<or> c = CHR ''-'')"

definition parse_isoformat_time ::
  "string \<Rightarrow> nat \<Rightarrow> nat \<Rightarrow> error + int list \<times> (int \<times> int) option" where
  "parse_isoformat_time s p dtlen =
     (let p_end = p + dtlen;
          tzinfo_pos =
            (if dtlen = 0 then (if is_tz_start (byte_at s p) then p else p + 1)
             else p + length (takeWhile (\<lambda>c. \<not> is_tz_start c) (take dtlen (drop p s))))
      in and_then (parse_hh_mm_ss_ff s p tzinfo_pos) (\<lambda>(vals, rv).
           if tzinfo_pos = p_end then (if rv then Inl ValueError else Inr (vals, None))
           else if byte_at s tzinfo_pos = CHR ''Z'' then
             (if byte_at s (tzinfo_pos + 1) \<noteq> CHR 0x00 then Inl ValueError
              else Inr (vals, Some (0, 0)))
           else
             let tzsign = (if byte_at s tzinfo_pos = CHR ''-'' then - 1 else 1);
                 tzinfo_pos = tzinfo_pos + 1
             in and_then (parse_hh_mm_ss_ff s tzinfo_pos p_end) (\<lambda>(tz, rv).
                  if rv then Inl ValueError
                  else Inr (vals, Some (tzsign * (tz ! 0 * 3600 + tz ! 1 * 60 + tz ! 2),
                                        tz ! 3 * tzsign)))))"

text \<open>
  \<^verbatim>\<open>tzinfo_from_isoformat_results\<close>: no offset, UTC when the seconds are 0 (whatever the
  microseconds), else the offset, which \<^verbatim>\<open>new_timezone\<close> wants strictly between minus and
  plus 24 hours.
\<close>

definition tzinfo_from_isoformat_results :: "(int \<times> int) option \<Rightarrow> error + int option" where
  "tzinfo_from_isoformat_results r =
     (case r of
        None \<Rightarrow> Inr None
      | Some (tzoffset, tz_useconds) \<Rightarrow>
          if tzoffset = 0 then Inr (Some 0)
          else
            let delta = tzoffset * 1000000 + tz_useconds
            in if check_offset delta then Inr (Some delta) else Inl ValueError)"

text \<open>
  \<^verbatim>\<open>datetime_fromisoformat\<close>. A string of fewer than 7 characters is refused at once;
  the character at the separator position is skipped by the length that its first byte
  announces (\<^verbatim>\<open>p[0] & 0x80\<close>, \<^verbatim>\<open>p[0] & 0xf0\<close>).
\<close>

definition fromisoformat :: "string \<Rightarrow> error + datetime" where
  "fromisoformat dtstr =
     (if length dtstr < 7 then Inl ValueError
      else
        let dt_ptr = as_utf8 dtstr;
            len = int (length dt_ptr);
            separator_location = find_isoformat_datetime_separator dt_ptr
        in and_then (parse_isoformat_date dt_ptr (size_t separator_location)) (\<lambda>(y, m, d).
           and_then
             (if len > separator_location then
                (let p = nat separator_location;
                     b = (of_char (byte_at dt_ptr p) :: nat);
                     p = p + (if b < 128 then 1 else if b div 16 = 14 then 3
                              else if b div 16 = 15 then 4 else 2)
                 in parse_isoformat_time dt_ptr p (length dt_ptr - p))
              else Inr ([0, 0, 0, 0], None)) (\<lambda>(vals, tz).
           and_then (tzinfo_from_isoformat_results tz) (\<lambda>tzinfo.
             datetime_new y m d (vals ! 0) (vals ! 1) (vals ! 2) (vals ! 3) tzinfo))))"

subsection \<open>The validators of the two models\<close>

text \<open>\<^verbatim>\<open>v.replace('Z', '+00:00')\<close>\<close>

definition replace_Z :: "string \<Rightarrow> string" where
  "replace_Z v = concat (map (\<lambda>c. if c = CHR ''Z'' then ''+00:00'' else [c]) v)"

text \<open>
  \<^verbatim>\<open>GMailData.validate_date_format\<close> and \<^verbatim>\<open>GMailDataExtended.validate_readable_date\<close>: the
  value itself when the parse succeeds, a \<^verbatim>\<open>ValueError\<close> when the parse raises one.
\<close>

definition validate_date_format :: "string \<Rightarrow> error + string" where
  "validate_date_format v =
     (case fromisoformat (replace_Z v) of
        Inr d \<Rightarrow> Inr v
      | Inl e \<Rightarrow> if e = ValueError then Inl ValueError else Inl e)"

definition validate_readable_date :: "string \<Rightarrow> error + string" where
  "validate_readable_date v =
     (case strptime v ''%Y-%m-%d %H:%M:%S'' of
        Inr d \<Rightarrow> Inr v
      | Inl e \<Rightarrow> if e = ValueError then Inl ValueError else Inl e)"

subsection \<open>The two message records\<close>

text \<open>
  \<^verbatim>\<open>GMailData\<close> and \<^verbatim>\<open>GMailDataExtended\<close>. The fields carry the prefix \<open>gm_\<close> (\<open>gm_from\<close> is the
  field \<^verbatim>\<open>from_\<close>, whose alias is \<^verbatim>\<open>from\<close>). The models are built from a dictionary of
  keyword arguments, whose values are of the types that the provider's JSON and the code
  put there.
\<close>

record GMailData =
  gm_id :: string
  gm_thread_id :: "string option"
  gm_from :: string
  gm_subject :: string
  gm_date :: string
  gm_snippet :: string

record GMailDataExtended = GMailData +
  gm_to :: string
  gm_date_readable :: string
  gm_labels :: "string list"
  gm_size_estimate :: int
  gm_body :: "unicode option"

datatype pyval = PyStr string | PyText unicode | PyNone | PyStrList "string list" | PyInt int

type_synonym kwargs = "string \<rightharpoonup> pyval"

text \<open>
  How pydantic reads one field: a required string, a string with a default, an optional
  string, a list of strings with a default, an integer with a default and the bound
  \<^verbatim>\<open>ge=0\<close>, an optional text. A missing required field, a value of another type and a
  validator that raises \<^verbatim>\<open>ValueError\<close> give a \<^verbatim>\<open>ValidationError\<close>; a key that names no field
  is ignored.
\<close>

definition required_str :: "kwargs \<Rightarrow> string \<Rightarrow> error + string" where
  "required_str d k = (case d k of Some (PyStr s) \<Rightarrow> Inr s | _ \<Rightarrow> Inl ValidationError)"

definition default_str :: "kwargs \<Rightarrow> string \<Rightarrow> string \<Rightarrow> error + string" where
  "default_str d k dflt =
     (case d k of None \<Rightarrow> Inr dflt | Some (PyStr s) \<Rightarrow> Inr s | _ \<Rightarrow> Inl ValidationError)"

definition optional_str :: "kwargs \<Rightarrow> string \<Rightarrow> error + string option" where
  "optional_str d k =
     (case d k of None \<Rightarrow> Inr None | Some PyNone \<Rightarrow> Inr None | Some (PyStr s) \<Rightarrow> Inr (Some s)
      | _ \<Rightarrow> Inl ValidationError)"

definition default_str_list :: "kwargs \<Rightarrow> string \<Rightarrow> error + string list" where
  "default_str_list d k =
     (case d k of None \<Rightarrow> Inr [] | Some (PyStrList l) \<Rightarrow> Inr l | _ \<Rightarrow> Inl ValidationError)"

definition default_nonneg_int :: "kwargs \<Rightarrow> string \<Rightarrow> error + int" where
  "default_nonneg_int d k =
     (case d k of None \<Rightarrow> Inr 0
      | Some (PyInt i) \<Rightarrow> if i \<ge> 0 then Inr i else Inl ValidationError
      | _ \<Rightarrow> Inl ValidationError)"

definition optional_text :: "kwargs \<Rightarrow> string \<Rightarrow> error + unicode option" where
  "optional_text d k =
     (case d k of None \<Rightarrow> Inr None | Some PyNone \<Rightarrow> Inr None | Some (PyText t) \<Rightarrow> Inr (Some t)
      | _ \<Rightarrow> Inl ValidationError)"

definition validated :: "(string \<Rightarrow> error + string) \<Rightarrow> error + string \<Rightarrow> error + string" where
  "validated validator field =
     and_then field (\<lambda>v. case validator v of Inr v' \<Rightarrow> Inr v' | Inl e \<Rightarrow> Inl ValidationError)"

definition GMailData_init :: "kwargs \<Rightarrow> error + GMailData" where
  "GMailData_init d =
     and_then (required_str d ''id'') (\<lambda>i.
     and_then (optional_str d ''thread_id'') (\<lambda>t.
     and_then (required_str d ''from'') (\<lambda>f.
     and_then (required_str d ''subject'') (\<lambda>s.
     and_then (validated validate_date_format (required_str d ''date'')) (\<lambda>dt.
     and_then (default_str d ''snippet'' []) (\<lambda>sn.
       Inr \<lparr>gm_id = i, gm_thread_id = t, gm_from = f, gm_subject = s, gm_date = dt,
            gm_snippet = sn\<rparr>))))))"

definition GMailDataExtended_init :: "kwargs \<Rightarrow> error + GMailDataExtended" where
  "GMailDataExtended_init d =
     and_then (GMailData_init d) (\<lambda>b.
     and_then (required_str d ''to'') (\<lambda>t.
     and_then (validated validate_readable_date (required_str d ''date_readable'')) (\<lambda>r.
     and_then (default_str_list d ''labels'') (\<lambda>l.
     and_then (default_nonneg_int d ''size_estimate'') (\<lambda>sz.
     and_then (optional_text d ''body'') (\<lambda>bd.
       Inr \<lparr>gm_id = gm_id b, gm_thread_id = gm_thread_id b, gm_from = gm_from b,
            gm_subject = gm_subject b, gm_date = gm_date b, gm_snippet = gm_snippet b,
            gm_to = t, gm_date_readable = r, gm_labels = l, gm_size_estimate = sz,
            gm_body = bd\<rparr>))))))"

datatype email = Basic GMailData | Extended GMailDataExtended

subsection \<open>Parsing one message\<close>

text \<open>
  The message as \<^verbatim>\<open>messages.get\<close> returns it, and the provider's client as far as the code
  uses it: the listing call and the fetch of one message, each of which returns a value
  or raises.
\<close>

record payload_t =
  headers :: "(string \<times> string) list option"
  root :: part

record message_details =
  threadId :: "string option"
  snippet :: "string option"
  labelIds :: "string list option"
  sizeEstimate :: "int option"
  payload :: "payload_t option"

record service =
  messages_list :: "string \<Rightarrow> int \<Rightarrow> error + string list option"
  messages_get :: "string \<Rightarrow> error + message_details"

text \<open>\<^verbatim>\<open>sep in s\<close> and \<^verbatim>\<open>s.split(sep)[0]\<close>, for a separator that is not empty\<close>

fun contains :: "string \<Rightarrow> string \<Rightarrow> bool" where
  "contains sep [] = (sep = [])"
| "contains sep (c # cs) = (take (length sep) (c # cs) = sep \<or> contains sep cs)"

fun split_first :: "string \<Rightarrow> string \<Rightarrow> string" where
  "split_first sep [] = []"
| "split_first sep (c # cs) =
     (if take (length sep) (c # cs) = sep then [] else c # split_first sep cs)"

text \<open>\<^verbatim>\<open>_extract_email_body\<close>\<close>

definition extract_email_body :: "message_details \<Rightarrow> error + unicode" where
  "extract_email_body md =
     get_body_from_part (case payload md of None \<Rightarrow> Part None None None | Some p \<Rightarrow> root p)"

text \<open>
  The date of the message: the \<^verbatim>\<open>Date\<close> header, cut before its first \<^verbatim>\<open> (\<close>, parsed with
  \<^verbatim>\<open>'%a, %d %b %Y %H:%M:%S %z'\<close>; the bare \<^verbatim>\<open>except\<close> turns every failure into the current
  time \<open>now\<close>.
\<close>

definition date_text :: "string \<Rightarrow> string" where
  "date_text date_str = (if contains '' ('' date_str then split_first '' ('' date_str else date_str)"

definition parse_date :: "datetime \<Rightarrow> string \<Rightarrow> datetime" where
  "parse_date now date_str =
     (case strptime (date_text date_str) ''%a, %d %b %Y %H:%M:%S %z'' of
        Inr parsed_date \<Rightarrow> parsed_date
      | Inl e \<Rightarrow> now)"

text \<open>
  \<^verbatim>\<open>_parse_email_data(message, include_body, basic_data)\<close>, for the message with the
  identifier \<open>message_id\<close>; \<open>now\<close> is what \<^verbatim>\<open>datetime.now()\<close> returns when it is called.
\<close>

definition parse_email_data :: "service \<Rightarrow> datetime \<Rightarrow> string \<Rightarrow> bool \<Rightarrow> bool \<Rightarrow> error + email" where
  "parse_email_data svc now message_id include_body basic_data =
     and_then (messages_get svc message_id) (\<lambda>md.
     and_then (case payload md of None \<Rightarrow> Inl KeyError | Some p \<Rightarrow> Inr p) (\<lambda>p.
     let hdrs = headers_dict (case headers p of None \<Rightarrow> [] | Some hs \<Rightarrow> hs);
         date_str = dict_get hdrs ''Date'' [];
         parsed_date = parse_date now date_str;
         thread = (case threadId md of None \<Rightarrow> PyNone | Some t \<Rightarrow> PyStr t);
         email_data_dict =
           (if basic_data then
              [''id'' \<mapsto> PyStr message_id,
               ''thread_id'' \<mapsto> thread,
               ''from'' \<mapsto> PyStr (dict_get hdrs ''From'' ''Unknown''),
               ''subject'' \<mapsto> PyStr (dict_get hdrs ''Subject'' ''No Subject''),
               ''date'' \<mapsto> PyStr (isoformat parsed_date),
               ''snippet'' \<mapsto> PyStr (case snippet md of None \<Rightarrow> [] | Some s \<Rightarrow> s)]
            else
              [''id'' \<mapsto> PyStr message_id,
               ''thread_id'' \<mapsto> thread,
               ''from'' \<mapsto> PyStr (dict_get hdrs ''From'' ''Unknown''),
               ''to'' \<mapsto> PyStr (dict_get hdrs ''To'' ''Unknown''),
               ''subject'' \<mapsto> PyStr (dict_get hdrs ''Subject'' ''No Subject''),
               ''date'' \<mapsto> PyStr (isoformat parsed_date),
               ''date_readable'' \<mapsto> PyStr (strftime_readable parsed_date),
               ''labels'' \<mapsto> PyStrList (case labelIds md of None \<Rightarrow> [] | Some l \<Rightarrow> l),
               ''snippet'' \<mapsto> PyStr (case snippet md of None \<Rightarrow> [] | Some s \<Rightarrow> s),
               ''size_estimate'' \<mapsto> PyInt (case sizeEstimate md of None \<Rightarrow> 0 | Some n \<Rightarrow> n)])
     in and_then
          (if include_body then
             and_then (extract_email_body md) (\<lambda>body.
               Inr (email_data_dict(''body'' \<mapsto> PyText (if body \<noteq> [] then clean_html body else []))))
           else Inr email_data_dict) (\<lambda>email_data_dict.
        if basic_data then and_then (GMailData_init email_data_dict) (\<lambda>r. Inr (Basic r))
        else and_then (GMailDataExtended_init email_data_dict) (\<lambda>r. Inr (Extended r)))))"

subsection \<open>Retrieval\<close>

text \<open>
  The loop of \<^verbatim>\<open>get_emails_by_date_range\<close> over the listed messages, with its variables
  \<^verbatim>\<open>emails\<close> and \<^verbatim>\<open>parsing_errors\<close>; \<open>i\<close> is the counter of \<^verbatim>\<open>enumerate(messages, 1)\<close> and
  \<open>clock i\<close> the current time while the \<open>i\<close>-th message is parsed. The inner
  \<^verbatim>\<open>except Exception\<close> catches whatever \<^verbatim>\<open>_parse_email_data\<close> raises.
\<close>

fun retrieve_loop ::
  "service \<Rightarrow> (nat \<Rightarrow> datetime) \<Rightarrow> bool \<Rightarrow> bool \<Rightarrow> nat \<Rightarrow> string list \<Rightarrow> email list \<Rightarrow> nat
     \<Rightarrow> email list \<times> nat" where
  "retrieve_loop svc clock include_body basic_data i [] emails parsing_errors =
     (emails, parsing_errors)"
| "retrieve_loop svc clock include_body basic_data i (message # rest) emails parsing_errors =
     (case parse_email_data svc (clock i) message include_body basic_data of
        Inr email_data \<Rightarrow>
          retrieve_loop svc clock include_body basic_data (i + 1) rest (emails @ [email_data])
            parsing_errors
      | Inl e \<Rightarrow>
          retrieve_loop svc clock include_body basic_data (i + 1) rest emails
            (parsing_errors + 1))"

text \<open>
  \<^verbatim>\<open>get_emails_by_date_range\<close>. The result pairs the list that is returned with the
  number of parsing errors that is logged. An \<^verbatim>\<open>HttpError\<close> of the listing call gives the
  empty list; another exception of that call leaves the function.
\<close>

definition get_emails_by_date_range ::
  "service \<Rightarrow> (nat \<Rightarrow> datetime) \<Rightarrow> datetime \<Rightarrow> datetime \<Rightarrow> int \<Rightarrow> string \<Rightarrow> bool \<Rightarrow> bool
     \<Rightarrow> error + email list \<times> nat" where
  "get_emails_by_date_range svc clock start_date end_date max_results query_filter
       include_body basic_data =
     (let start_str = format_date_for_gmail start_date;
          end_str = format_date_for_gmail end_date;
          query = ''after:'' @ start_str @ '' before:'' @ end_str
                    @ (if query_filter \<noteq> [] then '' '' @ query_filter else [])
      in case messages_list svc query max_results of
           Inl e \<Rightarrow> if e = HttpError then Inr ([], 0) else Inl e
         | Inr results \<Rightarrow>
             let messages = (case results of None \<Rightarrow> [] | Some ms \<Rightarrow> ms) in
             if messages = [] then Inr ([], 0)
             else Inr (retrieve_loop svc clock include_body basic_data 1 messages [] 0))"

subsection \<open>The relative-date resolver\<close>

text \<open>
  \<^verbatim>\<open>ensure_datetime\<close> of \<^verbatim>\<open>utils.py\<close>; \<open>now\<close> is what \<^verbatim>\<open>datetime.now()\<close> returns. The loop over
  the formats goes on at a \<^verbatim>\<open>ValueError\<close> and raises one when the list is used up.
\<close>

definition formats :: "string list" where
  "formats = [''%Y-%m-%d'', ''%m/%d/%Y'', ''%d/%m/%Y'', ''%Y-%m-%d %H:%M:%S'',
              ''%m/%d/%Y %H:%M:%S'']"

fun try_formats :: "string \<Rightarrow> string list \<Rightarrow> error + datetime" where
  "try_formats date_string [] = Inl ValueError"
| "try_formats date_string (fmt # fmts) =
     (case strptime date_string fmt of
        Inr d \<Rightarrow> Inr d
      | Inl e \<Rightarrow> if e = ValueError then try_formats date_string fmts else Inl e)"

definition ensure_datetime :: "datetime \<Rightarrow> string \<Rightarrow> error + datetime" where
  "ensure_datetime now date_string =
     (if date_string = ''today'' then Inr now
      else if date_string = ''yesterday'' then datetime_add now (- timedelta_days 1)
      else if date_string = ''last_week'' then datetime_add now (- timedelta_days 7)
      else if date_string = ''last_month'' then datetime_add now (- timedelta_days 30)
      else if date_string = ''last_year'' then datetime_add now (- timedelta_days 365)
      else try_formats date_string formats)"

text \<open>
  Matching a sequence step by step: \<open>then_match b ms\<close> continues each match of \<open>ms\<close> with the
  matches of \<open>b\<close> on what that match has left; it is how \<open>matches\<close> treats \<open>Seq a b\<close>,
  written as a recursion over the list.
\<close>

fun then_match :: "'c regex \<Rightarrow> ('c groups \<times> 'c list) list \<Rightarrow> ('c groups \<times> 'c list) list" where
  "then_match b [] = []"
| "then_match b (m # ms) =
     map (\<lambda>(g', r'). (fst m @ g', r')) (matches b (snd m)) @ then_match b ms"

text \<open>
  The outcomes of parsing the listed messages in turn, the \<open>i\<close>-th at the time \<open>clock i\<close>,
  the records among them and the number of failures.
\<close>

fun outcomes :: "service \<Rightarrow> (nat \<Rightarrow> datetime) \<Rightarrow> bool \<Rightarrow> bool \<Rightarrow> nat \<Rightarrow> string list \<Rightarrow> (error + email) list" where
  "outcomes svc clock include_body basic_data i [] = []"
| "outcomes svc clock include_body basic_data i (message # rest) =
     parse_email_data svc (clock i) message include_body basic_data
       # outcomes svc clock include_body basic_data (i + 1) rest"

fun successes :: "(error + 'a) list \<Rightarrow> 'a list" where
  "successes [] = []"
| "successes (Inr x # rs) = x # successes rs"
| "successes (Inl e # rs) = successes rs"

fun failures :: "(error + 'a) list \<Rightarrow> nat" where
  "failures [] = 0"
| "failures (Inr x # rs) = failures rs"
| "failures (Inl e # rs) = failures rs + 1"

text \<open>The query that \<^verbatim>\<open>get_emails_by_date_range\<close> sends to the listing call.\<close>

definition search_query :: "datetime \<Rightarrow> datetime \<Rightarrow> string \<Rightarrow> string" where
  "search_query start_date end_date query_filter =
     ''after:'' @ format_date_for_gmail start_date @ '' before:'' @ format_date_for_gmail end_date
       @ (if query_filter \<noteq> [] then '' '' @ query_filter else [])"

text \<open>
  \<open>minus_days dt k\<close> is \<open>dt\<close> moved back by \<open>k\<close> calendar days, the time of day unchanged:
  what \<^verbatim>\<open>dt - timedelta(days=k)\<close> is to yield.
\<close>

definition minus_days :: "datetime \<Rightarrow> int \<Rightarrow> error + datetime" where
  "minus_days dt k =
     (let n = ymd2ord (year dt) (month dt) (day dt) - k in
      if 0 < n \<and> n \<le> MAXORDINAL then
        (case ord2ymd n of (y, m, d) \<Rightarrow> Inr (dt\<lparr>year := y, month := m, day := d\<rparr>))
      else Inl OverflowError)"

subsection \<open>A sample provider\<close>

text \<open>
  A message with an RFC 2822 date that ends in a time-zone name and with an HTML body, a
  provider that lists two messages and fails to fetch the second, and a time of the
  clock; the properties below are instantiated with them.
\<close>

definition sample_details :: message_details where
  "sample_details =
     \<lparr>threadId = Some ''t1'', snippet = Some ''Hi'', labelIds = Some [''INBOX''],
      sizeEstimate = Some 12,
      payload = Some \<lparr>headers = Some [(''From'', ''a@b.c''),
                                       (''Date'', ''Mon, 15 Jan 2024 10:30:00 -0800 (PST)''),
                                       (''Subject'', ''S'')],
                      root = Part (Some ''text/html'') (Some (Some ''PGI-SGk8L2I-'')) None\<rparr>\<rparr>"

definition sample_service :: service where
  "sample_service =
     \<lparr>messages_list = (\<lambda>q n. Inr (Some [''m1'', ''m2''])),
      messages_get = (\<lambda>i. if i = ''m1'' then Inr sample_details else Inl HttpError)\<rparr>"

definition sample_now :: datetime where
  "sample_now = \<lparr>year = 2026, month = 11, day = 4, hour = 9, minute = 8, second = 7,
                  microsecond = 654321, tzinfo = None\<rparr>"

text \<open>The names of the groups of a regular expression.\<close>

fun group_names :: "'c regex \<Rightarrow> string set" where
  "group_names (Lit c) = {}"
| "group_names (Cls p) = {}"
| "group_names Eps = {}"
| "group_names (Seq a b) = group_names a \<union> group_names b"
| "group_names (Alt a b) = group_names a \<union> group_names b"
| "group_names (Star p) = {}"
| "group_names (Group n a) = insert n (group_names a)"

text \<open>The keywords of \<^verbatim>\<open>ensure_datetime\<close>.\<close>

definition relative_keywords :: "string set" where
  "relative_keywords = {''today'', ''yesterday'', ''last_week'', ''last_month'', ''last_year''}"

section \<open>Properties\<close>

subsection \<open>Header mapping\<close>

lemma foldl_upd_map_of:
  "foldl (\<lambda>m (n, v). m(n \<mapsto> v)) m0 hs = m0 ++ map_of (rev hs)"
proof (induction hs arbitrary: m0)
  case Nil
  show ?case by simp
next
  case (Cons h hs)
  obtain n v where h: "h = (n, v)" by (cases h)
  have "foldl (\<lambda>m (n, v). m(n \<mapsto> v)) m0 (h # hs)
          = foldl (\<lambda>m (n, v). m(n \<mapsto> v)) (m0(n \<mapsto> v)) hs"
    by (simp add: h)
  also have "\<dots> = m0(n \<mapsto> v) ++ map_of (rev hs)"
    by (rule Cons.IH)
  also have "\<dots> = m0 ++ ([n \<mapsto> v] ++ map_of (rev hs))"
    by (rule ext) (auto simp: map_add_def split: option.splits)
  also have "\<dots> = m0 ++ map_of (rev (h # hs))"
    by (simp add: h)
  finally show ?case .
qed

lemma headers_dict_map_of: "headers_dict hs = map_of (rev hs)"
  by (simp add: headers_dict_def foldl_upd_map_of)

text \<open>
  C9. The header mapping is keyed by name and the last occurrence of a name wins: when
  the pair \<open>(n, v)\<close> occurs in the list and no later pair has the name \<open>n\<close>, the mapping
  sends \<open>n\<close> to \<open>v\<close>, whatever pairs precede it; a name that occurs nowhere is absent.
\<close>

theorem headers_last_write_wins:
  "(n \<notin> fst ` set post \<longrightarrow> headers_dict (pre @ (n, v) # post) n = Some v)
   \<and> (n \<notin> fst ` set hs \<longrightarrow> headers_dict hs n = None)"
proof (intro conjI impI)
  assume "n \<notin> fst ` set post"
  then have "map_of (rev post) n = None"
    by (simp add: map_of_eq_None_iff)
  then show "headers_dict (pre @ (n, v) # post) n = Some v"
    by (simp add: headers_dict_map_of map_add_def)
next
  assume "n \<notin> fst ` set hs"
  then show "headers_dict hs n = None"
    by (simp add: headers_dict_map_of map_of_eq_None_iff)
qed

theorem headers_last_write_wins_witness:
  "headers_dict [(''Subject'', ''first''), (''From'', ''a@b.c''), (''Subject'', ''second'')] ''Subject''
     = Some ''second''
   \<and> headers_dict [(''From'', ''a@b.c'')] ''Date'' = None"
  using headers_last_write_wins [of "''Subject''" "[]" "[(''Subject'', ''first''), (''From'', ''a@b.c'')]" "''second''"
      "[(''From'', ''a@b.c'')]"]
    headers_last_write_wins [of "''Date''" "[]" "[]" "''x''" "[(''From'', ''a@b.c'')]"]
  by simp

subsection \<open>Body extraction\<close>

lemma first_body_append:
  "first_body (xs @ ys) =
     (case first_body xs of Inl e \<Rightarrow> Inl e | Inr b \<Rightarrow> if b \<noteq> [] then Inr b else first_body ys)"
  by (induction xs) (auto split: sum.splits)

lemma get_body_dfs:
  "get_body_from_part p = first_body (map own_body (dfs_part p))"
  "get_body_from_parts ps = first_body (map own_body (dfs_part_list ps))"
proof (induction p and ps rule: get_body_from_part_get_body_from_parts.induct)
  case (1 mt bd ps)
  then show ?case
    by (cases ps) (auto simp: first_body_append split: sum.splits)
next
  case 2
  show ?case by simp
next
  case (3 subpart rest)
  then show ?case
    by (auto simp: first_body_append split: sum.splits)
qed

lemma table_not_pad: "table_a2b_base64 c \<noteq> None \<Longrightarrow> c \<noteq> CHR ''=''"
  by (auto simp: table_a2b_base64_def Let_def)

lemma a2b_loop_alphabet:
  "list_all (\<lambda>c. table_a2b_base64 c \<noteq> None) cs \<Longrightarrow> q < 4 \<Longrightarrow>
     (if (q + length cs) mod 4 = 0 then \<exists>bs. a2b_loop q l p out cs = Inr bs
      else a2b_loop q l p out cs = Inl BinasciiError)"
proof (induction cs arbitrary: q l p out)
  case Nil
  then show ?case by simp
next
  case (Cons c cs)
  from Cons.prems obtain v where v: "table_a2b_base64 c = Some v"
    by auto
  from v have c: "c \<noteq> CHR ''=''"
    by (intro table_not_pad) simp
  from Cons.prems have rest: "list_all (\<lambda>c. table_a2b_base64 c \<noteq> None) cs"
    by simp
  from Cons.prems have "q = 0 \<or> q = 1 \<or> q = 2 \<or> q = 3" by arith
  then show ?case
  proof (elim disjE)
    assume q: "q = 0"
    have step: "a2b_loop q l p out (c # cs) = a2b_loop 1 v 0 out cs"
      by (simp add: q v c)
    have len: "(q + length (c # cs)) mod 4 = (1 + length cs) mod 4"
      by (simp add: q)
    show ?thesis unfolding step len by (rule Cons.IH [OF rest]) simp
  next
    assume q: "q = 1"
    have step: "a2b_loop q l p out (c # cs)
        = a2b_loop 2 (v AND 0x0f) 0 (out @ [push_bit 2 l OR drop_bit 4 v]) cs"
      by (simp add: q v c)
    have len: "(q + length (c # cs)) mod 4 = (2 + length cs) mod 4"
      by (simp add: q)
    show ?thesis unfolding step len by (rule Cons.IH [OF rest]) simp
  next
    assume q: "q = 2"
    have step: "a2b_loop q l p out (c # cs)
        = a2b_loop 3 (v AND 0x03) 0 (out @ [push_bit 4 l OR drop_bit 2 v]) cs"
      by (simp add: q v c)
    have len: "(q + length (c # cs)) mod 4 = (3 + length cs) mod 4"
      by (simp add: q)
    show ?thesis unfolding step len by (rule Cons.IH [OF rest]) simp
  next
    assume q: "q = 3"
    have step: "a2b_loop q l p out (c # cs) = a2b_loop 0 0 0 (out @ [push_bit 6 l OR v]) cs"
      by (simp add: q v c)
    have len: "(q + length (c # cs)) mod 4 = (0 + length cs) mod 4"
      unfolding q by simp
    show ?thesis unfolding step len by (rule Cons.IH [OF rest]) simp
  qed
qed

lemma urlsafe_b64decode_alphabet:
  assumes "list_all b64_char d"
  shows "if length d mod 4 = 0 then \<exists>bs. urlsafe_b64decode d = Inr bs
         else urlsafe_b64decode d = Inl BinasciiError"
proof -
  have asc: "list_all is_ascii d"
    using assms
    by (induction d) (auto simp: b64_char_def is_ascii_def table_a2b_base64_def Let_def
        urlsafe_decode_translation_def split: if_splits)
  have "list_all (\<lambda>c. table_a2b_base64 c \<noteq> None) (map urlsafe_decode_translation d)"
    using assms by (induction d) (auto simp: b64_char_def)
  from a2b_loop_alphabet [OF this, of 0 0 0 "[]"] asc show ?thesis
    by (simp add: urlsafe_b64decode_def a2b_base64_def)
qed

lemmas eval_decode =
  decode_body_data_def urlsafe_b64decode_def a2b_base64_def table_a2b_base64_def is_ascii_def
  urlsafe_decode_translation_def is_continuation_def low6_def own_body_def body_data_def

text \<open>
  C1, as stated, fails: with an HTML part listed before a plain-text part at the same
  level, the extraction returns the HTML content \<^verbatim>\<open><b>Hi</b>\<close> and not the plain text
  \<^verbatim>\<open>Hi\<close>.
\<close>

theorem plain_text_preferred_counterexample:
  "get_body_from_part (Part (Some ''multipart/alternative'') None
      (Some [Part (Some ''text/html'') (Some (Some ''PGI-SGk8L2I-'')) None,
             Part (Some ''text/plain'') (Some (Some ''SGk='')) None]))
     = Inr [60, 98, 62, 72, 105, 60, 47, 98, 62]
   \<and> decode_body_data ''SGk='' = Inr [72, 105]"
  by (simp add: eval_decode)

lemma first_body_all_empty: "(\<forall>r\<in>set rs. r = Inr []) \<Longrightarrow> first_body rs = Inr []"
  by (induction rs) auto

lemma dfs_part_last: "dfs_part a = butlast (dfs_part a) @ [a]"
  by (cases a) simp

lemma first_body_skip:
  assumes "\<forall>y\<in>set before. own_body y = Inr []" and "own_body a \<noteq> Inr []"
  shows "first_body (map own_body (before @ a # after)) = own_body a"
proof -
  have "first_body (map own_body before) = Inr []"
    using assms(1) by (intro first_body_all_empty) auto
  moreover have "first_body (own_body a # map own_body after) = own_body a"
    using assms(2) by (cases "own_body a") auto
  ultimately show ?thesis
    by (simp add: first_body_append)
qed

lemma own_body_text:
  assumes "mimeType a = Some ''text/plain'' \<or> mimeType a = Some ''text/html''"
    and "body a = Some (Some d)" and "decode_body_data d \<noteq> Inr []"
  shows "own_body a = decode_body_data d"
proof -
  have "decode_body_data [] = Inr []"
    by (simp add: decode_body_data_def urlsafe_b64decode_def a2b_base64_def utf8_decode_ignore.simps)
  with assms(3) have "d \<noteq> []" by auto
  with assms(1,2) show ?thesis
    by (auto simp: own_body_def body_data_def)
qed

lemma dfs_siblings:
  "dfs_part (Part mt bd (Some (pre @ a # post)))
     = (dfs_part_list pre @ butlast (dfs_part a)) @ a
         # (dfs_part_list post @ [Part mt bd (Some (pre @ a # post))])"
proof -
  have "dfs_part_list (xs @ ys) = dfs_part_list xs @ dfs_part_list ys" for xs ys
    by (induction xs) auto
  then have "dfs_part_list (pre @ a # post) = dfs_part_list pre @ dfs_part a @ dfs_part_list post"
    by simp
  also have "\<dots> = dfs_part_list pre @ (butlast (dfs_part a) @ [a]) @ dfs_part_list post"
    using dfs_part_last [of a] by simp
  finally show ?thesis by simp
qed

text \<open>
  C1, amended. Body extraction returns the outcome of the first part, in depth-first
  order with the sub-parts in list order before the part itself, whose own content
  (declared \<^verbatim>\<open>text/plain\<close> or \<^verbatim>\<open>text/html\<close>, with non-empty data) decodes to a non-empty
  string or fails to decode. So a plain-text or HTML part \<open>a\<close> whose data \<open>d\<close> decodes to a
  non-empty string, or fails to decode, gives the result, whatever follows it, provided
  that no part earlier in the traversal yields an outcome: each of them has an empty own
  content. Among the sub-parts \<open>pre @ a # post\<close> of one part, the parts earlier in the
  traversal are the earlier siblings \<open>pre\<close> with all their sub-parts and the sub-parts of
  \<open>a\<close> itself. Of a plain-text and an HTML part at the same level it is therefore the one
  listed first that is returned, under that proviso: no preference is given to plain
  text.
\<close>

theorem get_body_first_in_document_order:
  "get_body_from_part p = first_body (map own_body (dfs_part p))
   \<and> (dfs_part p = before @ a # after
        \<and> (\<forall>y\<in>set before. own_body y = Inr [])
        \<and> (mimeType a = Some ''text/plain'' \<or> mimeType a = Some ''text/html'')
        \<and> body a = Some (Some d) \<and> decode_body_data d \<noteq> Inr []
      \<longrightarrow> get_body_from_part p = decode_body_data d)
   \<and> ((\<forall>y\<in>set (dfs_part_list pre @ butlast (dfs_part a)). own_body y = Inr [])
        \<and> (mimeType a = Some ''text/plain'' \<or> mimeType a = Some ''text/html'')
        \<and> body a = Some (Some d) \<and> decode_body_data d \<noteq> Inr []
      \<longrightarrow> get_body_from_part (Part mt bd (Some (pre @ a # post))) = decode_body_data d)"
proof (intro conjI impI)
  show "get_body_from_part p = first_body (map own_body (dfs_part p))"
    by (rule get_body_dfs)
next
  assume h: "dfs_part p = before @ a # after
        \<and> (\<forall>y\<in>set before. own_body y = Inr [])
        \<and> (mimeType a = Some ''text/plain'' \<or> mimeType a = Some ''text/html'')
        \<and> body a = Some (Some d) \<and> decode_body_data d \<noteq> Inr []"
  then have o: "own_body a = decode_body_data d"
    by (intro own_body_text) auto
  with h have "first_body (map own_body (before @ a # after)) = own_body a"
    by (intro first_body_skip) auto
  with h o show "get_body_from_part p = decode_body_data d"
    by (simp add: get_body_dfs(1))
next
  assume h: "(\<forall>y\<in>set (dfs_part_list pre @ butlast (dfs_part a)). own_body y = Inr [])
        \<and> (mimeType a = Some ''text/plain'' \<or> mimeType a = Some ''text/html'')
        \<and> body a = Some (Some d) \<and> decode_body_data d \<noteq> Inr []"
  then have o: "own_body a = decode_body_data d"
    by (intro own_body_text) auto
  with h have "first_body (map own_body ((dfs_part_list pre @ butlast (dfs_part a)) @ a
         # (dfs_part_list post @ [Part mt bd (Some (pre @ a # post))]))) = own_body a"
    by (intro first_body_skip) auto
  with o show "get_body_from_part (Part mt bd (Some (pre @ a # post))) = decode_body_data d"
    by (simp only: get_body_dfs(1) dfs_siblings)
qed

theorem get_body_first_in_document_order_witness:
  "get_body_from_part (Part (Some ''multipart/mixed'') None
      (Some [Part (Some ''multipart/related'') None
               (Some [Part (Some ''image/png'') (Some (Some ''AAAA'')) None]),
             Part (Some ''text/plain'') (Some (Some ''SGk='')) None,
             Part (Some ''text/html'') (Some (Some ''PGI-SGk8L2I-'')) None])) = Inr [72, 105]
   \<and> get_body_from_part (Part (Some ''multipart/alternative'') None
      (Some [Part (Some ''text/html'') (Some (Some ''PGI-SGk8L2I-'')) None,
             Part (Some ''text/plain'') (Some (Some ''SGk='')) None]))
     = Inr [60, 98, 62, 72, 105, 60, 47, 98, 62]"
proof -
  let ?rel = "Part (Some ''multipart/related'') None
               (Some [Part (Some ''image/png'') (Some (Some ''AAAA'')) None])"
  let ?pl = "Part (Some ''text/plain'') (Some (Some ''SGk='')) None"
  let ?ht = "Part (Some ''text/html'') (Some (Some ''PGI-SGk8L2I-'')) None"
  have p: "decode_body_data ''SGk='' = Inr [72, 105]"
    by (simp add: eval_decode)
  have h: "decode_body_data ''PGI-SGk8L2I-'' = Inr [60, 98, 62, 72, 105, 60, 47, 98, 62]"
    by (simp add: eval_decode)
  have p': "decode_body_data ''SGk='' \<noteq> Inr []" and h': "decode_body_data ''PGI-SGk8L2I-'' \<noteq> Inr []"
    by (simp_all add: p h)
  have mp: "mimeType ?pl = Some ''text/plain'' \<or> mimeType ?pl = Some ''text/html''"
    and bp: "body ?pl = Some (Some ''SGk='')"
    and mh: "mimeType ?ht = Some ''text/plain'' \<or> mimeType ?ht = Some ''text/html''"
    and bh: "body ?ht = Some (Some ''PGI-SGk8L2I-'')"
    by simp_all
  have e1: "\<forall>y\<in>set (dfs_part_list [?rel] @ butlast (dfs_part ?pl)). own_body y = Inr []"
    by (simp add: own_body_def body_data_def)
  have e2: "\<forall>y\<in>set (dfs_part_list [] @ butlast (dfs_part ?ht)). own_body y = Inr []"
    by simp
  from get_body_first_in_document_order
    [where a = ?pl and d = "''SGk=''" and pre = "[?rel]" and post = "[?ht]"
       and mt = "Some ''multipart/mixed''" and bd = None] p' e1 mp bp
  have 1: "get_body_from_part (Part (Some ''multipart/mixed'') None (Some ([?rel] @ ?pl # [?ht])))
      = decode_body_data ''SGk=''"
    by blast
  from get_body_first_in_document_order
    [where a = ?ht and d = "''PGI-SGk8L2I-''" and pre = "[]" and post = "[?pl]"
       and mt = "Some ''multipart/alternative''" and bd = None] h' e2 mh bh
  have 2: "get_body_from_part (Part (Some ''multipart/alternative'') None (Some ([] @ ?ht # [?pl])))
      = decode_body_data ''PGI-SGk8L2I-''"
    by blast
  from 1 2 show ?thesis
    unfolding p h append.simps by (rule conjI)
qed

subsection \<open>Decoding of the body data\<close>

text \<open>
  C2, as stated, fails: the data \<^verbatim>\<open>abc\<close> is an incomplete quad, decoding it raises
  \<^verbatim>\<open>binascii.Error\<close>, and the exception leaves the extraction. And a byte that is
  no UTF-8 (here \<^verbatim>\<open>0xFF\<close>, the data \<^verbatim>\<open>_w==\<close>) is dropped, not replaced: the result is
  the empty string.
\<close>

theorem decoding_total_counterexample:
  "get_body_from_part (Part (Some ''text/plain'') (Some (Some ''abc'')) None) = Inl BinasciiError
   \<and> urlsafe_b64decode ''_w=='' = Inr [0xFF] \<and> decode_body_data ''_w=='' = Inr []"
  by (simp add: eval_decode)

text \<open>
  C2, amended. Base64 decoding of the body data can raise, and the exception leaves the
  extraction: data with a non-ASCII character raises \<^verbatim>\<open>ValueError\<close>, and data made of
  base64 digits only (no padding) decodes when its length is a multiple of four and
  raises \<^verbatim>\<open>binascii.Error\<close> otherwise. Once the base64 decoding has succeeded, the UTF-8
  decoding cannot fail: a byte at which no well-formed sequence starts is dropped, nothing
  is put in its place.
\<close>

theorem body_decoding_outcome:
  "(list_all b64_char d \<longrightarrow>
      (if length d mod 4 = 0 then \<exists>u. decode_body_data d = Inr u
       else decode_body_data d = Inl BinasciiError))
   \<and> (\<not> list_all is_ascii d \<longrightarrow> decode_body_data d = Inl ValueError)
   \<and> (urlsafe_b64decode d = Inr bs \<longrightarrow> decode_body_data d = Inr (utf8_decode_ignore bs))
   \<and> (utf8_seq (b # bs') = None \<longrightarrow> utf8_decode_ignore (b # bs') = utf8_decode_ignore bs')
   \<and> (d \<noteq> [] \<longrightarrow>
        get_body_from_part (Part (Some ''text/plain'') (Some (Some d)) None) = decode_body_data d
        \<and> get_body_from_part (Part (Some ''text/html'') (Some (Some d)) None) = decode_body_data d)"
proof (intro conjI impI)
  assume "list_all b64_char d"
  from urlsafe_b64decode_alphabet [OF this]
  show "if length d mod 4 = 0 then \<exists>u. decode_body_data d = Inr u
       else decode_body_data d = Inl BinasciiError"
    by (auto simp: decode_body_data_def split: if_splits)
next
  assume "\<not> list_all is_ascii d"
  then show "decode_body_data d = Inl ValueError"
    by (simp add: decode_body_data_def urlsafe_b64decode_def)
next
  assume "urlsafe_b64decode d = Inr bs"
  then show "decode_body_data d = Inr (utf8_decode_ignore bs)"
    by (simp add: decode_body_data_def)
next
  assume "utf8_seq (b # bs') = None"
  then show "utf8_decode_ignore (b # bs') = utf8_decode_ignore bs'"
    by simp
next
  assume "d \<noteq> []"
  then show "get_body_from_part (Part (Some ''text/plain'') (Some (Some d)) None)
      = decode_body_data d"
    by (simp add: own_body_def body_data_def)
next
  assume "d \<noteq> []"
  then show "get_body_from_part (Part (Some ''text/html'') (Some (Some d)) None)
      = decode_body_data d"
    by (simp add: own_body_def body_data_def)
qed

theorem body_decoding_outcome_witness:
  "(\<exists>u. decode_body_data ''SGk_'' = Inr u)
   \<and> decode_body_data ''SGk'' = Inl BinasciiError
   \<and> decode_body_data [CHR 0xE9] = Inl ValueError
   \<and> decode_body_data ''_0E='' = Inr [65]
   \<and> utf8_decode_ignore [0xFF, 0x41] = utf8_decode_ignore [0x41]
   \<and> get_body_from_part (Part (Some ''text/plain'') (Some (Some ''SGk'')) None)
       = decode_body_data ''SGk''"
proof -
  have 1: "list_all b64_char ''SGk_''" and 2: "list_all b64_char ''SGk''"
    by (simp_all add: b64_char_def table_a2b_base64_def urlsafe_decode_translation_def)
  have 3: "\<not> list_all is_ascii [CHR 0xE9]"
    by (simp add: is_ascii_def)
  have 4: "urlsafe_b64decode ''_0E='' = Inr [0xFF, 0x41]"
    by (simp add: eval_decode)
  have 5: "utf8_seq [0xFF, 0x41] = None"
    by simp
  have 6: "utf8_decode_ignore [0xFF, 0x41] = [65]"
    by (simp add: eval_decode)
  from body_decoding_outcome [of "''SGk_''" "[]" 0 "[]"]
    body_decoding_outcome [of "''SGk''" "[]" 0 "[]"]
    body_decoding_outcome [of "[CHR 0xE9]" "[]" 0 "[]"]
    body_decoding_outcome [of "''_0E=''" "[0xFF, 0x41]" "0xFF" "[0x41]"]
    1 2 3 4 5 6
  show ?thesis by simp
qed

subsection \<open>Regular expressions and the HTML cleanup\<close>

lemma matches_seq_lit:
  "matches (Seq (Lit c) r) s =
     (case s of [] \<Rightarrow> [] | x # xs \<Rightarrow> if x = c then matches r xs else [])"
  by (cases s) (auto simp: case_prod_unfold)

lemma matches_seq_cls:
  "matches (Seq (Cls p) r) s =
     (case s of [] \<Rightarrow> [] | x # xs \<Rightarrow> if p x then matches r xs else [])"
  by (cases s) (auto simp: case_prod_unfold)

lemma matches_star_lit: "matches (Seq (Star p) (Lit c)) s = star_lit p c s"
  by (simp add: comp_def case_prod_unfold star_lit_def)

lemma star_lit_Cons:
  "star_lit p c (x # xs) =
     (if p x then star_lit p c xs else []) @ (if x = c then [([], xs)] else [])"
  by (simp add: star_lit_def)

lemma star_lit_Nil: "star_lit p c [] = []"
  by (simp add: star_lit_def)

lemma match_star_lit:
  "re_match (Seq (Star p) (Lit c)) s = map_option (Pair []) (last_lit p c s)"
proof -
  have "(case star_lit p c s of [] \<Rightarrow> None | m # _ \<Rightarrow> Some m)
          = map_option (Pair []) (last_lit p c s)"
  proof (induction s)
    case Nil
    show ?case by (simp add: star_lit_Nil)
  next
    case (Cons x xs)
    show ?case
    proof (cases "p x")
      case True
      show ?thesis
      proof (cases "star_lit p c xs")
        case Nil
        with Cons.IH have "last_lit p c xs = None"
          by simp
        with Nil True show ?thesis
          by (simp add: star_lit_Cons)
      next
        case (Cons m ms)
        with Cons.IH have "map_option (Pair []) (last_lit p c xs) = Some m"
          by simp
        then obtain r where "last_lit p c xs = Some r" "m = ([], r)"
          by auto
        with Cons True show ?thesis
          by (simp add: star_lit_Cons)
      qed
    next
      case False
      then show ?thesis
        by (simp add: star_lit_Cons)
    qed
  qed
  then show ?thesis
    unfolding re_match_def matches_star_lit .
qed

lemma re_match_seq_lit:
  "re_match (Seq (Lit c) r) s =
     (case s of [] \<Rightarrow> None | x # xs \<Rightarrow> if x = c then re_match r xs else None)"
  by (simp add: re_match_def matches_seq_lit split: list.splits)

lemma re_match_seq_cls:
  "re_match (Seq (Cls p) r) s =
     (case s of [] \<Rightarrow> None | x # xs \<Rightarrow> if p x then re_match r xs else None)"
  by (simp add: re_match_def matches_seq_cls split: list.splits)

lemma seq_assoc_inner:
  "concat (map ((\<lambda>(g, r). map (\<lambda>(g', r'). (g @ g', r')) (f r)) \<circ> (\<lambda>(g', r'). (g0 @ g', r'))) l)
     = map (\<lambda>(g', r'). (g0 @ g', r')) (concat (map (\<lambda>(g, r). map (\<lambda>(g', r'). (g @ g', r')) (f r)) l))"
  by (induction l) (auto simp: case_prod_unfold)

lemma matches_seq_assoc:
  "matches (Seq (Seq a b) c) s = matches (Seq a (Seq b c)) s"
proof -
  have "concat (map (\<lambda>(g, r). map (\<lambda>(g', r'). (g @ g', r')) (matches c r))
            (concat (map (\<lambda>(g, r). map (\<lambda>(g', r'). (g @ g', r')) (matches b r)) l)))
        = concat (map (\<lambda>(g, r). map (\<lambda>(g', r'). (g @ g', r'))
            (concat (map (\<lambda>(g, r). map (\<lambda>(g', r'). (g @ g', r')) (matches c r)) (matches b r)))) l)"
    for l
    by (induction l) (auto simp: seq_assoc_inner)
  then show ?thesis by simp
qed

lemma re_match_seq_assoc:
  "re_match (Seq (Seq a b) c) s = re_match (Seq a (Seq b c)) s"
  unfolding re_match_def matches_seq_assoc ..

lemma star_rests_not_Nil: "star_rests p s \<noteq> []"
  by (induction s) auto

lemma hd_star_rests: "star_rests p s = dropWhile p s # tl (star_rests p s)"
proof (induction s)
  case Nil
  show ?case by simp
next
  case (Cons x xs)
  show ?case
  proof (cases "p x")
    case True
    have "star_rests p (x # xs) = star_rests p xs @ [x # xs]"
      using True by simp
    also have "\<dots> = (dropWhile p xs # tl (star_rests p xs)) @ [x # xs]"
      using Cons by simp
    finally show ?thesis
      using True by (simp add: star_rests_not_Nil)
  next
    case False
    then show ?thesis by simp
  qed
qed

lemma re_match_star: "re_match (Star p) s = Some ([], dropWhile p s)"
  unfolding re_match_def by (subst matches.simps, subst hd_star_rests) simp

lemma match_tag:
  "re_match tag_re s =
     (case s of x # y # ys \<Rightarrow>
        if x = LT \<and> y \<noteq> GT then map_option (Pair []) (last_lit (\<lambda>c. c \<noteq> GT) GT ys) else None
      | _ \<Rightarrow> None)"
  unfolding tag_re_def re_match_seq_lit re_match_seq_assoc re_match_seq_cls match_star_lit
  by (simp split: list.splits)

lemma match_blank:
  "re_match blank_re s =
     (case s of x # xs \<Rightarrow>
        if x = LF then map_option (Pair []) (last_lit is_space LF xs) else None
      | _ \<Rightarrow> None)"
  unfolding blank_re_def re_match_seq_lit match_star_lit
  by (simp split: list.splits)

lemma match_spaces:
  "re_match spaces_re s =
     (case s of x # xs \<Rightarrow> if x = SP then Some ([], dropWhile (\<lambda>c. c = SP) xs) else None
      | _ \<Rightarrow> None)"
  unfolding spaces_re_def re_match_seq_lit re_match_star
  by (simp split: list.splits)

lemma last_lit_split:
  "last_lit p c s = Some r \<Longrightarrow> \<exists>w. s = w @ c # r \<and> list_all p w"
proof (induction s arbitrary: r)
  case Nil
  then show ?case by simp
next
  case (Cons x xs)
  show ?case
  proof (cases "p x \<and> last_lit p c xs \<noteq> None")
    case True
    with Cons.prems have "last_lit p c xs = Some r" by auto
    from Cons.IH [OF this] obtain w where "xs = w @ c # r" "list_all p w" by blast
    with True have "x # xs = (x # w) @ c # r \<and> list_all p (x # w)" by simp
    then show ?thesis by blast
  next
    case False
    with Cons.prems have "x = c \<and> r = xs"
      by (auto split: if_splits option.splits)
    then have "x # xs = [] @ c # r \<and> list_all p []" by simp
    then show ?thesis by blast
  qed
qed

lemma last_lit_length: "last_lit p c s = Some r \<Longrightarrow> length r < length s"
  by (auto dest: last_lit_split)

lemma last_lit_None_takeWhile:
  "p c \<Longrightarrow> last_lit p c s = None \<longleftrightarrow> c \<notin> set (takeWhile p s)"
  by (induction s) (auto split: option.splits)

lemma last_lit_rest_takeWhile:
  "p c \<Longrightarrow> last_lit p c s = Some r \<Longrightarrow> c \<notin> set (takeWhile p r)"
proof (induction s arbitrary: r)
  case Nil
  then show ?case by simp
next
  case (Cons x xs)
  show ?case
  proof (cases "last_lit p c xs")
    case None
    with Cons.prems have "r = xs"
      by (auto split: if_splits)
    with None Cons.prems(1) show ?thesis
      by (simp add: last_lit_None_takeWhile)
  next
    case (Some r')
    with Cons.prems have "p x \<longrightarrow> r = r'"
      by (auto split: if_splits)
    moreover from Cons.prems Some have "\<not> p x \<longrightarrow> x = c"
      by (auto split: if_splits)
    ultimately show ?thesis
      using Cons.IH [OF Cons.prems(1) Some] Cons.prems(1) by auto
  qed
qed

lemma last_lit_neq_None: "last_lit (\<lambda>x. x \<noteq> c) c s = None \<longleftrightarrow> c \<notin> set s"
  by (induction s) (auto split: option.splits)

subsection \<open>Deleting characters\<close>

lemma del_refl: "del P s s"
  by (induction s) (auto intro: del.intros)

lemma del_drop_prefix: "list_all P w \<Longrightarrow> del P s t \<Longrightarrow> del P (w @ s) t"
  by (induction w) (auto intro: del.intros)

lemma del_append: "del P s t \<Longrightarrow> del P s' t' \<Longrightarrow> del P (s @ s') (t @ t')"
  by (induction rule: del.induct) (auto intro: del.intros)

lemma del_all: "list_all P w \<Longrightarrow> del P w []"
  by (induction w) (auto intro: del.intros)

inductive_cases del_ConsE: "del P (x # t) u"

lemma del_trans: "del P s t \<Longrightarrow> del P t u \<Longrightarrow> del P s u"
proof (induction arbitrary: u rule: del.induct)
  case del_Nil
  then show ?case by simp
next
  case (del_keep s t x)
  from del_keep.prems show ?case
    by (rule del_ConsE) (auto intro: del.intros del_keep.IH)
next
  case (del_drop x s t)
  then show ?case by (auto intro: del.intros)
qed

lemma del_set: "del P s t \<Longrightarrow> set s \<subseteq> set t \<union> {x. P x}"
  by (induction rule: del.induct) auto

lemma del_Nil_iff: "del P s [] \<Longrightarrow> list_all P s"
  by (induction s "[] :: 'a list" rule: del.induct) auto

lemma del_filter: "del P s t \<Longrightarrow> filter (\<lambda>x. \<not> P x) s = filter (\<lambda>x. \<not> P x) t"
  by (induction rule: del.induct) auto

lemma del_append_Cons_aux:
  "del P s t \<Longrightarrow> t = t1 @ x # t2 \<Longrightarrow> \<exists>s1 s2. s = s1 @ x # s2 \<and> del P s1 t1 \<and> del P s2 t2"
proof (induction arbitrary: t1 rule: del.induct)
  case del_Nil
  then show ?case by simp
next
  case (del_keep s t y)
  show ?case
  proof (cases t1)
    case Nil
    with del_keep.prems del_keep.hyps
    have "y # s = [] @ x # s \<and> del P [] t1 \<and> del P s t2"
      by (auto intro: del.intros)
    then show ?thesis by blast
  next
    case (Cons z t1')
    with del_keep.prems have t: "t = t1' @ x # t2" and yz: "y = z" by auto
    from del_keep.IH [OF t] obtain s1 s2
      where "s = s1 @ x # s2" "del P s1 t1'" "del P s2 t2" by blast
    with Cons yz have "y # s = (y # s1) @ x # s2 \<and> del P (y # s1) t1 \<and> del P s2 t2"
      by (auto intro: del.intros)
    then show ?thesis by blast
  qed
next
  case (del_drop y s t)
  from del_drop.IH [OF del_drop.prems] obtain s1 s2
    where "s = s1 @ x # s2" "del P s1 t1" "del P s2 t2" by blast
  with del_drop.hyps(1) have "y # s = (y # s1) @ x # s2 \<and> del P (y # s1) t1 \<and> del P s2 t2"
    by (auto intro: del.intros)
  then show ?case by blast
qed

lemma del_append_Cons:
  "del P s (t1 @ x # t2) \<Longrightarrow> \<exists>s1 s2. s = s1 @ x # s2 \<and> del P s1 t1 \<and> del P s2 t2"
  by (rule del_append_Cons_aux) simp_all

lemma is_space_simps [simp]:
  "is_space LF" "is_space SP" "\<not> is_space LT" "\<not> is_space GT"
  by (simp_all add: is_space_def LF_def SP_def LT_def GT_def)

lemma chars_distinct [simp]: "LT \<noteq> GT" "GT \<noteq> LT" "LF \<noteq> SP" "SP \<noteq> LF"
  by (simp_all add: LF_def SP_def LT_def GT_def)

subsection \<open>Tags\<close>


lemma match_tag_length: "re_match tag_re s = Some (g, r) \<Longrightarrow> Suc (Suc (length r)) < length s"
  by (auto simp: match_tag split: list.splits if_splits dest!: last_lit_length)

lemma sub_tag_Cons:
  "re_sub tag_re [] (x # xs) =
     (case re_match tag_re (x # xs) of
        None \<Rightarrow> x # re_sub tag_re [] xs
      | Some (g, r) \<Rightarrow> re_sub tag_re [] r)"
proof (cases "re_match tag_re (x # xs)")
  case None
  then show ?thesis by (simp add: re_sub.simps(2))
next
  case (Some m)
  obtain g r where m: "m = (g, r)" by (cases m)
  from match_tag_length [OF Some [unfolded m]] have "length r < Suc (length xs)" by simp
  with Some m show ?thesis by (simp add: re_sub.simps(2))
qed

lemma sub_tag_keep: "re_match tag_re (x # xs) = None \<Longrightarrow>
    re_sub tag_re [] (x # xs) = x # re_sub tag_re [] xs"
  by (simp add: sub_tag_Cons)

lemma sub_tag_skip: "re_match tag_re (x # xs) = Some (g, r) \<Longrightarrow>
    re_sub tag_re [] (x # xs) = re_sub tag_re [] r"
  by (simp add: sub_tag_Cons)

lemma sub_tag_set: "set (re_sub tag_re [] s) \<subseteq> set s"
proof (induction s rule: length_induct)
  case (1 s)
  show ?case
  proof (cases s)
    case Nil
    then show ?thesis by simp
  next
    case (Cons x xs)
    show ?thesis
    proof (cases "re_match tag_re (x # xs)")
      case None
      then have "re_sub tag_re [] s = x # re_sub tag_re [] xs"
        using Cons by (simp add: sub_tag_keep)
      moreover have "set (re_sub tag_re [] xs) \<subseteq> set xs"
        using 1 Cons by simp
      ultimately show ?thesis
        using Cons by auto
    next
      case (Some m)
      obtain g r where m: "m = (g, r)" by (cases m)
      from Some m obtain y ys where xs: "xs = y # ys"
        and r: "last_lit (\<lambda>c. c \<noteq> GT) GT ys = Some r"
        by (auto simp: match_tag split: list.splits if_splits)
      from last_lit_split [OF r] obtain w where w: "ys = w @ GT # r" by blast
      with 1 Cons xs have "set (re_sub tag_re [] r) \<subseteq> set r"
        by simp
      moreover have "re_sub tag_re [] s = re_sub tag_re [] r"
        using Some m Cons by (simp add: sub_tag_skip)
      ultimately show ?thesis
        using Cons xs w by auto
    qed
  qed
qed

lemma match_tag_no_LT: "x \<noteq> LT \<Longrightarrow> re_match tag_re (x # xs) = None"
  by (simp add: match_tag split: list.splits)

lemma sub_tag_no_LT: "LT \<notin> set s \<Longrightarrow> re_sub tag_re [] s = s"
proof (induction s)
  case Nil
  show ?case by simp
next
  case (Cons x xs)
  then have "re_match tag_re (x # xs) = None"
    by (intro match_tag_no_LT) auto
  with Cons show ?case by (simp add: sub_tag_keep)
qed

lemma no_tag_Cons:
  assumes "no_tag t" and "x = LT \<Longrightarrow> \<forall>a post. t = a @ GT # post \<longrightarrow> a = [] \<or> GT \<in> set a"
  shows "no_tag (x # t)"
  unfolding no_tag_def
proof (intro allI impI)
  fix pre a post
  assume eq: "x # t = pre @ LT # a @ GT # post"
  show "a = [] \<or> GT \<in> set a"
  proof (cases pre)
    case Nil
    with eq assms(2) show ?thesis by auto
  next
    case (Cons y pre')
    with eq have "t = pre' @ LT # a @ GT # post" by simp
    with assms(1) show ?thesis unfolding no_tag_def by blast
  qed
qed

lemma sub_tag_no_tag: "no_tag (re_sub tag_re [] s)"
proof (induction s rule: length_induct)
  case (1 s)
  show ?case
  proof (cases s)
    case Nil
    then show ?thesis by (simp add: no_tag_def)
  next
    case (Cons x xs)
    show ?thesis
    proof (cases "re_match tag_re (x # xs)")
      case None
      have IH: "no_tag (re_sub tag_re [] xs)"
        using 1 Cons by simp
      have "no_tag (x # re_sub tag_re [] xs)"
      proof (rule no_tag_Cons [OF IH], intro allI impI)
        fix a post
        assume x: "x = LT" and eq: "re_sub tag_re [] xs = a @ GT # post"
        show "a = [] \<or> GT \<in> set a"
        proof (cases xs)
          case Nil
          with eq show ?thesis by simp
        next
          case (Cons y ys)
          show ?thesis
          proof (cases "y = GT")
            case True
            with Cons have "re_sub tag_re [] xs = GT # re_sub tag_re [] ys"
              by (simp add: sub_tag_keep match_tag_no_LT)
            with eq show ?thesis by (cases a) auto
          next
            case False
            with None x Cons have "last_lit (\<lambda>c. c \<noteq> GT) GT ys = None"
              by (simp add: match_tag)
            then have "GT \<notin> set ys" by (simp add: last_lit_neq_None)
            with False Cons have "GT \<notin> set xs" by simp
            with sub_tag_set [of xs] have "GT \<notin> set (re_sub tag_re [] xs)" by blast
            with eq show ?thesis by simp
          qed
        qed
      qed
      with None Cons show ?thesis by (simp add: sub_tag_keep)
    next
      case (Some m)
      obtain g r where m: "m = (g, r)" by (cases m)
      from Some m obtain y ys where xs: "xs = y # ys"
        and r: "last_lit (\<lambda>c. c \<noteq> GT) GT ys = Some r"
        by (auto simp: match_tag split: list.splits if_splits)
      from last_lit_length [OF r] 1 Cons xs have "no_tag (re_sub tag_re [] r)"
        by simp
      with Some m Cons show ?thesis by (simp add: sub_tag_skip)
    qed
  qed
qed

lemma no_tag_del:
  assumes "no_tag s" and "del P s t" and "\<not> P GT"
  shows "no_tag t"
  unfolding no_tag_def
proof (intro allI impI)
  fix pre a post
  assume "t = pre @ LT # a @ GT # post"
  with assms(2) obtain s1 s2 where s: "s = s1 @ LT # s2" and d2: "del P s2 (a @ GT # post)"
    by (auto dest: del_append_Cons)
  from del_append_Cons [OF d2] obtain s21 s22 where s2: "s2 = s21 @ GT # s22"
    and d21: "del P s21 a" by blast
  from s s2 assms(1) have "s21 = [] \<or> GT \<in> set s21"
    unfolding no_tag_def by blast
  then show "a = [] \<or> GT \<in> set a"
  proof
    assume "s21 = []"
    with d21 show ?thesis by (auto elim: del.cases)
  next
    assume "GT \<in> set s21"
    with del_set [OF d21] assms(3) show ?thesis by auto
  qed
qed

subsection \<open>Blank lines\<close>

lemma match_blank_length: "re_match blank_re s = Some (g, r) \<Longrightarrow> Suc (length r) < length s"
  by (auto simp: match_blank split: list.splits if_splits dest!: last_lit_length)

lemma sub_blank_keep: "re_match blank_re (x # xs) = None \<Longrightarrow>
    re_sub blank_re [LF, LF] (x # xs) = x # re_sub blank_re [LF, LF] xs"
  by (simp add: re_sub.simps(2))

lemma sub_blank_repl: "re_match blank_re (x # xs) = Some (g, r) \<Longrightarrow>
    re_sub blank_re [LF, LF] (x # xs) = LF # LF # re_sub blank_re [LF, LF] r"
  by (frule match_blank_length) (simp add: re_sub.simps(2))

lemma match_blank_not_LF: "x \<noteq> LF \<Longrightarrow> re_match blank_re (x # xs) = None"
  by (simp add: match_blank)

lemma sub_blank_takeWhile:
  "LF \<notin> set (takeWhile is_space s) \<Longrightarrow>
     takeWhile is_space (re_sub blank_re [LF, LF] s) = takeWhile is_space s"
proof (induction s)
  case Nil
  show ?case by simp
next
  case (Cons x xs)
  have x: "x \<noteq> LF"
    using Cons.prems by (cases "is_space x") auto
  then have eq: "re_sub blank_re [LF, LF] (x # xs) = x # re_sub blank_re [LF, LF] xs"
    by (simp add: sub_blank_keep match_blank_not_LF)
  show ?case
  proof (cases "is_space x")
    case True
    with Cons show ?thesis by (simp add: eq)
  next
    case False
    then show ?thesis by (simp add: eq)
  qed
qed

lemma LF_in_takeWhile:
  "t = w @ LF # post \<Longrightarrow> list_all is_space w \<Longrightarrow> LF \<in> set (takeWhile is_space t)"
  by (induction w arbitrary: t) auto

lemma sub_blank_ok: "blank_ok (re_sub blank_re [LF, LF] s)"
proof (induction s rule: length_induct)
  case (1 s)
  show ?case
  proof (cases s)
    case Nil
    then show ?thesis by (simp add: blank_ok_def)
  next
    case (Cons x xs)
    show ?thesis
    proof (cases "re_match blank_re (x # xs)")
      case None
      have IH: "blank_ok (re_sub blank_re [LF, LF] xs)"
        using 1 Cons by simp
      have eq: "re_sub blank_re [LF, LF] s = x # re_sub blank_re [LF, LF] xs"
        using None Cons by (simp add: sub_blank_keep)
      show ?thesis
        unfolding blank_ok_def eq
      proof (intro allI impI, elim conjE)
        fix pre w post
        assume t: "x # re_sub blank_re [LF, LF] xs = pre @ LF # w @ LF # post"
          and w: "list_all is_space w"
        show "w = []"
        proof (cases pre)
          case Nil
          with t have x: "x = LF" and r: "re_sub blank_re [LF, LF] xs = w @ LF # post"
            by auto
          from None x have "last_lit is_space LF xs = None"
            by (simp add: match_blank)
          then have "LF \<notin> set (takeWhile is_space xs)"
            by (simp add: last_lit_None_takeWhile)
          with LF_in_takeWhile [OF r w] show ?thesis
            by (simp add: sub_blank_takeWhile)
        next
          case (Cons y pre')
          with t have "re_sub blank_re [LF, LF] xs = pre' @ LF # w @ LF # post"
            by simp
          with IH w show ?thesis
            unfolding blank_ok_def by blast
        qed
      qed
    next
      case (Some m)
      obtain g r where m: "m = (g, r)" by (cases m)
      from Some m have x: "x = LF" and r: "last_lit is_space LF xs = Some r"
        by (auto simp: match_blank split: if_splits)
      have eq: "re_sub blank_re [LF, LF] s = LF # LF # re_sub blank_re [LF, LF] r"
        using Some m Cons by (simp add: sub_blank_repl)
      from last_lit_length [OF r] 1 Cons have IH: "blank_ok (re_sub blank_re [LF, LF] r)"
        by simp
      from last_lit_rest_takeWhile [OF _ r]
      have no: "LF \<notin> set (takeWhile is_space (re_sub blank_re [LF, LF] r))"
        by (simp add: sub_blank_takeWhile)
      show ?thesis
        unfolding blank_ok_def eq
      proof (intro allI impI, elim conjE)
        fix pre w post
        assume t: "LF # LF # re_sub blank_re [LF, LF] r = pre @ LF # w @ LF # post"
          and w: "list_all is_space w"
        show "w = []"
        proof (cases pre)
          case Nil
          show ?thesis
          proof (cases w)
            case Nil
            then show ?thesis .
          next
            case (Cons z w')
            with t \<open>pre = []\<close> have "re_sub blank_re [LF, LF] r = w' @ LF # post"
              by simp
            from LF_in_takeWhile [OF this] w Cons no show ?thesis by simp
          qed
        next
          case (Cons y pre')
          note pre = Cons
          show ?thesis
          proof (cases pre')
            case Nil
            with t pre have "re_sub blank_re [LF, LF] r = w @ LF # post"
              by simp
            from LF_in_takeWhile [OF this w] no show ?thesis by simp
          next
            case (Cons y' pre'')
            with t pre have "re_sub blank_re [LF, LF] r = pre'' @ LF # w @ LF # post"
              by simp
            with IH w show ?thesis
              unfolding blank_ok_def by blast
          qed
        qed
      qed
    qed
  qed
qed

lemma sub_blank_del: "del is_space s (re_sub blank_re [LF, LF] s)"
proof (induction s rule: length_induct)
  case (1 s)
  show ?case
  proof (cases s)
    case Nil
    then show ?thesis by (simp add: del.intros)
  next
    case (Cons x xs)
    show ?thesis
    proof (cases "re_match blank_re (x # xs)")
      case None
      with 1 Cons show ?thesis
        by (simp add: sub_blank_keep del.intros)
    next
      case (Some m)
      obtain g r where m: "m = (g, r)" by (cases m)
      from Some m have x: "x = LF" and r: "last_lit is_space LF xs = Some r"
        by (auto simp: match_blank split: if_splits)
      from last_lit_split [OF r] obtain w where w: "xs = w @ LF # r" "list_all is_space w"
        by blast
      from last_lit_length [OF r] 1 Cons have "del is_space r (re_sub blank_re [LF, LF] r)"
        by simp
      then have "del is_space (LF # r) (LF # re_sub blank_re [LF, LF] r)"
        by (rule del.intros)
      then have "del is_space (w @ LF # r) (LF # re_sub blank_re [LF, LF] r)"
        by (rule del_drop_prefix [OF w(2)])
      then have "del is_space (LF # w @ LF # r) (LF # LF # re_sub blank_re [LF, LF] r)"
        by (rule del.intros)
      with Some m Cons x w show ?thesis
        by (simp add: sub_blank_repl)
    qed
  qed
qed

lemma blank_ok_del:
  assumes "blank_ok s" and "del is_space s t"
  shows "blank_ok t"
  unfolding blank_ok_def
proof (intro allI impI, elim conjE)
  fix pre w post
  assume "t = pre @ LF # w @ LF # post" and w: "list_all is_space w"
  with assms(2) obtain s1 s2 where s: "s = s1 @ LF # s2" and d2: "del is_space s2 (w @ LF # post)"
    by (auto dest: del_append_Cons)
  from del_append_Cons [OF d2] obtain s21 s22 where s2: "s2 = s21 @ LF # s22"
    and d21: "del is_space s21 w" by blast
  from del_set [OF d21] w have "list_all is_space s21"
    by (auto simp: list_all_iff)
  with s s2 assms(1) have "s21 = []"
    unfolding blank_ok_def by blast
  with d21 show "w = []" by (auto elim: del.cases)
qed

subsection \<open>Spaces\<close>

lemma sub_spaces_keep: "x \<noteq> SP \<Longrightarrow>
    re_sub spaces_re [SP] (x # xs) = x # re_sub spaces_re [SP] xs"
  by (simp add: re_sub.simps(2) match_spaces)

lemma sub_spaces_repl:
  "re_sub spaces_re [SP] (SP # xs) = SP # re_sub spaces_re [SP] (dropWhile (\<lambda>c. c = SP) xs)"
proof -
  have "length (dropWhile (\<lambda>c. c = SP) xs) < Suc (length xs)"
    using length_dropWhile_le [of "\<lambda>c. c = SP" xs] by simp
  then show ?thesis
    by (simp add: re_sub.simps(2) match_spaces)
qed

lemma sub_spaces_hd:
  "s = [] \<or> hd s \<noteq> SP \<Longrightarrow> re_sub spaces_re [SP] s = [] \<or> hd (re_sub spaces_re [SP] s) \<noteq> SP"
  by (cases s) (auto simp: sub_spaces_keep)

lemma sub_spaces_ok: "spaces_ok (re_sub spaces_re [SP] s)"
proof (induction s rule: length_induct)
  case (1 s)
  show ?case
  proof (cases s)
    case Nil
    then show ?thesis by (simp add: spaces_ok_def)
  next
    case (Cons x xs)
    show ?thesis
    proof (cases "x = SP")
      case False
      have IH: "spaces_ok (re_sub spaces_re [SP] xs)"
        using 1 Cons by simp
      show ?thesis
        unfolding spaces_ok_def
      proof (intro allI notI)
        fix pre post
        assume "re_sub spaces_re [SP] s = pre @ SP # SP # post"
        with Cons False have t: "x # re_sub spaces_re [SP] xs = pre @ SP # SP # post"
          by (simp add: sub_spaces_keep)
        show False
        proof (cases pre)
          case Nil
          with t False show ?thesis by simp
        next
          case (Cons y pre')
          with t IH show ?thesis
            unfolding spaces_ok_def by auto
        qed
      qed
    next
      case True
      let ?r = "dropWhile (\<lambda>c. c = SP) xs"
      have "length ?r < length s"
        using length_dropWhile_le [of "\<lambda>c. c = SP" xs] Cons by simp
      with 1 have IH: "spaces_ok (re_sub spaces_re [SP] ?r)"
        by simp
      have "?r = [] \<or> hd ?r \<noteq> SP"
        using hd_dropWhile [of "\<lambda>c. c = SP" xs] by auto
      from sub_spaces_hd [OF this]
      have hd: "re_sub spaces_re [SP] ?r = [] \<or> hd (re_sub spaces_re [SP] ?r) \<noteq> SP" .
      show ?thesis
        unfolding spaces_ok_def
      proof (intro allI notI)
        fix pre post
        assume "re_sub spaces_re [SP] s = pre @ SP # SP # post"
        with Cons True have t: "SP # re_sub spaces_re [SP] ?r = pre @ SP # SP # post"
          by (simp add: sub_spaces_repl)
        show False
        proof (cases pre)
          case Nil
          with t hd show ?thesis by auto
        next
          case (Cons y pre')
          with t IH show ?thesis
            unfolding spaces_ok_def by auto
        qed
      qed
    qed
  qed
qed

lemma sub_spaces_del: "del is_space s (re_sub spaces_re [SP] s)"
proof (induction s rule: length_induct)
  case (1 s)
  show ?case
  proof (cases s)
    case Nil
    then show ?thesis by (simp add: del.intros)
  next
    case (Cons x xs)
    show ?thesis
    proof (cases "x = SP")
      case False
      with 1 Cons show ?thesis
        by (simp add: sub_spaces_keep del.intros)
    next
      case True
      let ?r = "dropWhile (\<lambda>c. c = SP) xs"
      have "length ?r < length s"
        using length_dropWhile_le [of "\<lambda>c. c = SP" xs] Cons by simp
      with 1 have "del is_space ?r (re_sub spaces_re [SP] ?r)"
        by simp
      moreover have "list_all is_space (takeWhile (\<lambda>c. c = SP) xs)"
        by (induction xs) auto
      ultimately have "del is_space (takeWhile (\<lambda>c. c = SP) xs @ ?r) (re_sub spaces_re [SP] ?r)"
        by (rule del_drop_prefix [rotated])
      then have "del is_space (SP # xs) (SP # re_sub spaces_re [SP] ?r)"
        by (simp add: del.intros)
      with Cons True show ?thesis
        by (simp add: sub_spaces_repl)
    qed
  qed
qed

subsection \<open>Trimming\<close>

lemma strip_decomp: "\<exists>l r. s = l @ strip s @ r \<and> list_all is_space l \<and> list_all is_space r"
proof -
  let ?d = "dropWhile is_space s"
  have 1: "s = takeWhile is_space s @ ?d" by simp
  have "rev (rev ?d) = rev (takeWhile is_space (rev ?d) @ dropWhile is_space (rev ?d))"
    by (simp only: takeWhile_dropWhile_id)
  then have 2: "?d = strip s @ rev (takeWhile is_space (rev ?d))"
    by (simp only: rev_rev_ident rev_append strip_def)
  have a: "list_all is_space (takeWhile is_space s)"
    by (simp add: list_all_iff) (meson set_takeWhileD)
  have b: "list_all is_space (rev (takeWhile is_space (rev ?d)))"
    by (simp add: list_all_iff) (meson set_takeWhileD)
  from 1 2 have "s = takeWhile is_space s @ strip s @ rev (takeWhile is_space (rev ?d))"
    by simp
  with a b show ?thesis by blast
qed

lemma strip_del: "del is_space s (strip s)"
proof -
  from strip_decomp [of s] obtain l r where s: "s = l @ strip s @ r"
    and l: "list_all is_space l" and r: "list_all is_space r" by blast
  have "del is_space (strip s @ r) (strip s @ [])"
    by (intro del_append del_refl del_all r)
  then have "del is_space (l @ strip s @ r) (strip s)"
    using del_drop_prefix [OF l] by simp
  with s show ?thesis by simp
qed

lemma strip_ends:
  "strip s \<noteq> [] \<Longrightarrow> \<not> is_space (hd (strip s)) \<and> \<not> is_space (last (strip s))"
proof -
  assume ne: "strip s \<noteq> []"
  let ?d = "dropWhile is_space s"
  let ?e = "dropWhile is_space (rev ?d)"
  from ne have e: "?e \<noteq> []" by (simp add: strip_def)
  have d: "?d \<noteq> []"
  proof
    assume "?d = []"
    then have "?e = []" by (simp only: rev.simps dropWhile.simps)
    with e show False by simp
  qed
  have "\<not> is_space (hd ?e)"
    using e hd_dropWhile by blast
  then have last: "\<not> is_space (last (strip s))"
    using e by (simp add: strip_def last_rev)
  have "rev ?d = takeWhile is_space (rev ?d) @ ?e" by simp
  then have "last (rev ?d) = last ?e"
    using e by (metis last_appendR)
  then have "hd ?d = last ?e"
    using d by (simp add: last_rev)
  moreover have "\<not> is_space (hd ?d)"
    using d hd_dropWhile by blast
  ultimately have "\<not> is_space (hd (strip s))"
    using e by (simp add: strip_def hd_rev)
  with last show ?thesis by simp
qed

lemma spaces_ok_strip: "spaces_ok s \<Longrightarrow> spaces_ok (strip s)"
proof -
  assume ok: "spaces_ok s"
  from strip_decomp [of s] obtain l r where s: "s = l @ strip s @ r" by blast
  show ?thesis
    unfolding spaces_ok_def
  proof (intro allI notI)
    fix pre post
    assume "strip s = pre @ SP # SP # post"
    with s have "s = (l @ pre) @ SP # SP # (post @ r)" by simp
    with ok show False unfolding spaces_ok_def by blast
  qed
qed

lemmas eval_clean =
  clean_html_def ustr_def LF_def SP_def LT_def GT_def tag_re_def blank_re_def spaces_re_def
  re_match_def strip_def is_space_def re_sub.simps(2)

lemma clean_html_del: "del is_space (re_sub tag_re [] h) (clean_html h)"
proof (cases "h = []")
  case True
  then show ?thesis by (simp add: clean_html_def del.intros)
next
  case False
  let ?t = "re_sub tag_re [] h"
  let ?b = "re_sub blank_re [LF, LF] ?t"
  let ?s = "re_sub spaces_re [SP] ?b"
  have "del is_space ?t ?b" by (rule sub_blank_del)
  moreover have "del is_space ?b ?s" by (rule sub_spaces_del)
  moreover have "del is_space ?s (strip ?s)" by (rule strip_del)
  ultimately have "del is_space ?t (strip ?s)"
    by (blast intro: del_trans)
  with False show ?thesis by (simp add: clean_html_def)
qed

lemma clean_html_no_tag: "no_tag (clean_html h)"
  by (rule no_tag_del [OF sub_tag_no_tag clean_html_del]) simp

lemma clean_html_blank_ok: "blank_ok (clean_html h)"
proof (cases "h = []")
  case True
  then show ?thesis by (simp add: clean_html_def blank_ok_def)
next
  case False
  let ?b = "re_sub blank_re [LF, LF] (re_sub tag_re [] h)"
  let ?s = "re_sub spaces_re [SP] ?b"
  have "del is_space ?b (strip ?s)"
    by (blast intro: del_trans sub_spaces_del strip_del)
  from blank_ok_del [OF sub_blank_ok this] False show ?thesis
    by (simp add: clean_html_def)
qed

lemma clean_html_spaces_ok: "spaces_ok (clean_html h)"
proof (cases "h = []")
  case True
  then show ?thesis by (simp add: clean_html_def spaces_ok_def)
next
  case False
  then show ?thesis
    by (simp add: clean_html_def spaces_ok_strip sub_spaces_ok)
qed

lemma clean_html_ends:
  "clean_html h \<noteq> [] \<Longrightarrow> \<not> is_space (hd (clean_html h)) \<and> \<not> is_space (last (clean_html h))"
  by (cases "h = []") (simp_all add: clean_html_def strip_ends)

lemma collapse_Cons_SP:
  "collapse_spaces (SP # xs) = SP # collapse_spaces (dropWhile (\<lambda>c. c = SP) xs)"
proof (induction xs)
  case Nil
  show ?case by simp
next
  case (Cons y ys)
  show ?case
  proof (cases "y = SP")
    case True
    with Cons show ?thesis by simp
  next
    case False
    then show ?thesis by (cases ys) auto
  qed
qed

lemma collapse_Cons_other: "x \<noteq> SP \<Longrightarrow> collapse_spaces (x # xs) = x # collapse_spaces xs"
  by (cases xs) auto

lemma sub_spaces_collapse: "re_sub spaces_re [SP] s = collapse_spaces s"
proof (induction s rule: length_induct)
  case (1 s)
  show ?case
  proof (cases s)
    case Nil
    then show ?thesis by simp
  next
    case (Cons x xs)
    show ?thesis
    proof (cases "x = SP")
      case False
      with 1 Cons show ?thesis
        by (simp add: sub_spaces_keep collapse_Cons_other)
    next
      case True
      have "length (dropWhile (\<lambda>c. c = SP) xs) < length s"
        using length_dropWhile_le [of "\<lambda>c. c = SP" xs] Cons by simp
      with 1 have "re_sub spaces_re [SP] (dropWhile (\<lambda>c. c = SP) xs)
          = collapse_spaces (dropWhile (\<lambda>c. c = SP) xs)"
        by simp
      with Cons True show ?thesis
        by (simp add: sub_spaces_repl collapse_Cons_SP)
    qed
  qed
qed

lemma collapse_append_other:
  "a = [] \<or> last a \<noteq> SP \<Longrightarrow> collapse_spaces (a @ s) = collapse_spaces a @ collapse_spaces s"
proof (induction a rule: length_induct)
  case (1 a)
  show ?case
  proof (cases a)
    case Nil
    then show ?thesis by simp
  next
    case (Cons x xs)
    show ?thesis
    proof (cases "x = SP")
      case False
      have "xs = [] \<or> last xs \<noteq> SP" using 1(2) Cons by (cases xs) auto
      with 1(1) Cons have "collapse_spaces (xs @ s) = collapse_spaces xs @ collapse_spaces s"
        by (cases "xs = []") auto
      with Cons False show ?thesis
        by (simp add: collapse_Cons_other)
    next
      case True
      let ?d = "dropWhile (\<lambda>c. c = SP) xs"
      from 1(2) Cons True have ne: "xs \<noteq> []" and l: "last xs \<noteq> SP"
        by (auto split: if_splits)
      then have dne: "?d \<noteq> []"
        by (metis (mono_tags, lifting) dropWhile_eq_Nil_conv last_in_set)
      have "xs = takeWhile (\<lambda>c. c = SP) xs @ ?d" by simp
      then have "last xs = last ?d" using dne by (metis last_appendR)
      with l have dl: "?d = [] \<or> last ?d \<noteq> SP" by simp
      have len: "length ?d < length a"
        using length_dropWhile_le [of "\<lambda>c. c = SP" xs] Cons by simp
      have dw: "dropWhile (\<lambda>c. c = SP) (xs @ s) = ?d @ s"
        using dne by (simp add: dropWhile_append1 dropWhile_eq_Nil_conv)
           (metis (mono_tags, lifting) dropWhile_append1 dropWhile_eq_Nil_conv)
      from 1(1) len dl have "collapse_spaces (?d @ s) = collapse_spaces ?d @ collapse_spaces s"
        by blast
      with Cons True dw show ?thesis
        by (simp add: collapse_Cons_SP)
    qed
  qed
qed

lemma collapse_run:
  assumes "a = [] \<or> last a \<noteq> SP" and "b = [] \<or> hd b \<noteq> SP"
  shows "collapse_spaces (a @ replicate (Suc n) SP @ b) = collapse_spaces a @ SP # collapse_spaces b"
proof -
  have "dropWhile (\<lambda>c. c = SP) (replicate n SP @ b) = b"
    using assms(2) by (induction n) (auto simp: dropWhile_eq_Cons_conv intro: dropWhile_eq_self_iff [THEN iffD2])
  then have "collapse_spaces (replicate (Suc n) SP @ b) = SP # collapse_spaces b"
    by (simp add: collapse_Cons_SP)
  with collapse_append_other [OF assms(1)] show ?thesis by simp
qed

lemma collapse_no_SP: "SP \<notin> set s \<Longrightarrow> collapse_spaces s = s"
  by (induction s) (auto simp: collapse_Cons_other)

lemma sub_blank_no_LF: "LF \<notin> set s \<Longrightarrow> re_sub blank_re [LF, LF] s = s"
  by (induction s) (auto simp: sub_blank_keep match_blank_not_LF)

lemma strip_word: "s \<noteq> [] \<Longrightarrow> \<not> is_space (hd s) \<Longrightarrow> \<not> is_space (last s) \<Longrightarrow> strip s = s"
proof -
  assume a: "s \<noteq> []" "\<not> is_space (hd s)" "\<not> is_space (last s)"
  then have 1: "dropWhile is_space s = s" by (cases s) auto
  from a have "\<not> is_space (hd (rev s))" by (simp add: hd_rev)
  with a have "dropWhile is_space (rev s) = rev s" by (cases "rev s") auto
  with 1 show ?thesis by (simp add: strip_def)
qed

lemma clean_html_run:
  assumes "a \<noteq> []" and "b \<noteq> []" and "\<forall>c\<in>set (a @ b). \<not> is_space c \<and> c \<noteq> LT"
  shows "clean_html (a @ replicate (Suc n) SP @ b) = a @ SP # b"
proof -
  let ?h = "a @ replicate (Suc n) SP @ b"
  have "\<not> is_space c" if "c \<in> set a \<union> set b" for c
    using assms(3) that by simp
  then have sp: "SP \<notin> set a" "SP \<notin> set b" and lf: "LF \<notin> set a" "LF \<notin> set b"
    using is_space_simps(1,2) by blast+
  have "LT \<notin> set ?h" using assms(3) by (auto simp: LT_def SP_def)
  then have 1: "re_sub tag_re [] ?h = ?h" by (rule sub_tag_no_LT)
  have "LF \<notin> set ?h" using lf by auto
  then have 2: "re_sub blank_re [LF, LF] ?h = ?h" by (rule sub_blank_no_LF)
  have la: "a = [] \<or> last a \<noteq> SP" using sp(1) assms(1) last_in_set by metis
  have hb: "b = [] \<or> hd b \<noteq> SP" using sp(2) assms(2) hd_in_set by metis
  have 3: "re_sub spaces_re [SP] ?h = a @ SP # b"
    using collapse_run [OF la hb, of n] sp
    by (simp add: sub_spaces_collapse collapse_no_SP del: replicate.simps)
  have "\<not> is_space (hd (a @ SP # b))" using assms by (cases a) auto
  moreover have "\<not> is_space (last (a @ SP # b))" using assms by (simp add: last_in_set)
  ultimately have "strip (a @ SP # b) = a @ SP # b"
    by (intro strip_word) auto
  with 1 2 3 show ?thesis
    by (simp add: clean_html_def del: replicate.simps)
qed

lemma last_lit_blank:
  assumes "list_all is_space w" and "b \<noteq> []" and "\<not> is_space (hd b)"
  shows "last_lit is_space LF (w @ LF # b) = Some b"
  using assms(1)
proof (induction w)
  case Nil
  from assms(2,3) obtain y ys where b: "b = y # ys" and y: "\<not> is_space y"
    by (cases b) auto
  from y have "y \<noteq> LF" using is_space_simps(1) by auto
  with b y show ?case by simp
next
  case (Cons x xs)
  then show ?case by simp
qed

lemma sub_blank_run:
  assumes "list_all is_space w" and "b \<noteq> []" and "\<not> is_space (hd b)"
  shows "re_sub blank_re [LF, LF] (LF # w @ LF # b) = LF # LF # re_sub blank_re [LF, LF] b"
proof -
  have "re_match blank_re (LF # w @ LF # b) = Some ([], b)"
    by (simp add: match_blank last_lit_blank [OF assms])
  then show ?thesis by (rule sub_blank_repl)
qed

lemma sub_blank_append:
  "LF \<notin> set a \<Longrightarrow> re_sub blank_re [LF, LF] (a @ s) = a @ re_sub blank_re [LF, LF] s"
  by (induction a) (auto simp: sub_blank_keep match_blank_not_LF)

lemma clean_html_blank_run:
  assumes "a \<noteq> []" and "b \<noteq> []" and "\<forall>c\<in>set (a @ b). \<not> is_space c \<and> c \<noteq> LT"
    and "list_all is_space w"
  shows "clean_html (a @ LF # w @ LF # b) = a @ LF # LF # b"
proof -
  let ?h = "a @ LF # w @ LF # b"
  have ns: "\<not> is_space c" if "c \<in> set a \<union> set b" for c
    using assms(3) that by simp
  then have sp: "SP \<notin> set a" "SP \<notin> set b" and lf: "LF \<notin> set a" "LF \<notin> set b"
    using is_space_simps(1,2) by blast+
  have "LT \<notin> set w" using assms(4) is_space_simps(3) by (auto simp: list_all_iff)
  then have "LT \<notin> set ?h" using assms(3) by (auto simp: LT_def LF_def)
  then have 1: "re_sub tag_re [] ?h = ?h" by (rule sub_tag_no_LT)
  have hb: "\<not> is_space (hd b)" using ns assms(2) by simp
  have 2: "re_sub blank_re [LF, LF] ?h = a @ LF # LF # b"
    using lf by (simp add: sub_blank_append sub_blank_run [OF assms(4,2) hb] sub_blank_no_LF)
  have "SP \<notin> set (a @ LF # LF # b)" using sp by simp
  then have 3: "collapse_spaces (a @ LF # LF # b) = a @ LF # LF # b"
    by (rule collapse_no_SP)
  have "\<not> is_space (hd (a @ LF # LF # b))" using assms ns by (cases a) auto
  moreover have "\<not> is_space (last (a @ LF # LF # b))" using assms ns by (simp add: last_in_set)
  ultimately have "strip (a @ LF # LF # b) = a @ LF # LF # b"
    by (intro strip_word) auto
  with 1 2 3 show ?thesis
    by (simp add: clean_html_def sub_spaces_collapse)
qed

lemma clean_html_collapse:
  "clean_html h = (if h = [] then []
     else strip (collapse_spaces (re_sub blank_re [LF, LF] (re_sub tag_re [] h))))"
  by (simp add: clean_html_def sub_spaces_collapse)

text \<open>
  C8. For every input the result of the cleanup holds no tag, has at most one blank line
  (an empty one) between two lines, has no two adjacent spaces and neither begins nor
  ends with white space; behind the removal of the tags only white space is deleted, and
  a text without \<^verbatim>\<open><\<close> loses no tag. The substitution of \<^verbatim>\<open> +\<close> by one space is
  \<open>collapse_spaces\<close>, which leaves exactly one space of a run of spaces: between two
  words \<open>u\<close> and \<open>v\<close> (non-empty, without white space and \<^verbatim>\<open><\<close>) a run of one or more
  spaces comes out as one space, and two line feeds with only white space between them
  come out as two adjacent line feeds. The input
  \<^verbatim>\<open><p>Hello</p>\n\n\n<b>World</b>\<close> yields \<^verbatim>\<open>Hello\n\nWorld\<close>.
\<close>

theorem clean_html_properties:
  "clean_html (ustr ''<p>Hello</p>\<newline>\<newline>\<newline><b>World</b>'') = ustr ''Hello\<newline>\<newline>World''
   \<and> (\<forall>pre a post. clean_html h = pre @ LT # a @ GT # post \<longrightarrow> a = [] \<or> GT \<in> set a)
   \<and> (\<forall>pre w post. clean_html h = pre @ LF # w @ LF # post \<and> list_all is_space w \<longrightarrow> w = [])
   \<and> (\<forall>pre post. clean_html h \<noteq> pre @ SP # SP # post)
   \<and> (clean_html h \<noteq> [] \<longrightarrow> \<not> is_space (hd (clean_html h)) \<and> \<not> is_space (last (clean_html h)))
   \<and> filter (\<lambda>c. \<not> is_space c) (clean_html h) = filter (\<lambda>c. \<not> is_space c) (re_sub tag_re [] h)
   \<and> (LT \<notin> set h \<longrightarrow> re_sub tag_re [] h = h)
   \<and> re_sub spaces_re [SP] s = collapse_spaces s
   \<and> clean_html h = (if h = [] then []
        else strip (collapse_spaces (re_sub blank_re [LF, LF] (re_sub tag_re [] h))))
   \<and> ((a = [] \<or> last a \<noteq> SP) \<and> (b = [] \<or> hd b \<noteq> SP) \<longrightarrow>
        collapse_spaces (a @ replicate (Suc n) SP @ b) = collapse_spaces a @ SP # collapse_spaces b)
   \<and> (u \<noteq> [] \<and> v \<noteq> [] \<and> (\<forall>c\<in>set (u @ v). \<not> is_space c \<and> c \<noteq> LT) \<longrightarrow>
        clean_html (u @ replicate (Suc n) SP @ v) = u @ SP # v)
   \<and> (u \<noteq> [] \<and> v \<noteq> [] \<and> (\<forall>c\<in>set (u @ v). \<not> is_space c \<and> c \<noteq> LT) \<and> list_all is_space w \<longrightarrow>
        clean_html (u @ LF # w @ LF # v) = u @ LF # LF # v)"
proof (intro conjI)
  show "clean_html (ustr ''<p>Hello</p>\<newline>\<newline>\<newline><b>World</b>'') = ustr ''Hello\<newline>\<newline>World''"
    by (simp add: eval_clean)
  show "\<forall>pre a post. clean_html h = pre @ LT # a @ GT # post \<longrightarrow> a = [] \<or> GT \<in> set a"
    using clean_html_no_tag [of h] unfolding no_tag_def .
  show "\<forall>pre w post. clean_html h = pre @ LF # w @ LF # post \<and> list_all is_space w \<longrightarrow> w = []"
    using clean_html_blank_ok [of h] unfolding blank_ok_def .
  show "\<forall>pre post. clean_html h \<noteq> pre @ SP # SP # post"
    using clean_html_spaces_ok [of h] unfolding spaces_ok_def .
  show "clean_html h \<noteq> [] \<longrightarrow> \<not> is_space (hd (clean_html h)) \<and> \<not> is_space (last (clean_html h))"
    using clean_html_ends [of h] by blast
  show "filter (\<lambda>c. \<not> is_space c) (clean_html h) = filter (\<lambda>c. \<not> is_space c) (re_sub tag_re [] h)"
    using del_filter [OF clean_html_del [of h]] by simp
  show "LT \<notin> set h \<longrightarrow> re_sub tag_re [] h = h"
    by (simp add: sub_tag_no_LT)
  show "re_sub spaces_re [SP] s = collapse_spaces s"
    by (rule sub_spaces_collapse)
  show "clean_html h = (if h = [] then []
        else strip (collapse_spaces (re_sub blank_re [LF, LF] (re_sub tag_re [] h))))"
    by (rule clean_html_collapse)
  show "(a = [] \<or> last a \<noteq> SP) \<and> (b = [] \<or> hd b \<noteq> SP) \<longrightarrow>
        collapse_spaces (a @ replicate (Suc n) SP @ b) = collapse_spaces a @ SP # collapse_spaces b"
    using collapse_run [of a b n] by blast
  show "u \<noteq> [] \<and> v \<noteq> [] \<and> (\<forall>c\<in>set (u @ v). \<not> is_space c \<and> c \<noteq> LT) \<longrightarrow>
        clean_html (u @ replicate (Suc n) SP @ v) = u @ SP # v"
    using clean_html_run [of u v n] by blast
  show "u \<noteq> [] \<and> v \<noteq> [] \<and> (\<forall>c\<in>set (u @ v). \<not> is_space c \<and> c \<noteq> LT) \<and> list_all is_space w \<longrightarrow>
        clean_html (u @ LF # w @ LF # v) = u @ LF # LF # v"
    using clean_html_blank_run [of u v w] by blast
qed

theorem clean_html_properties_witness:
  "clean_html (ustr ''<i>a  b</i> '') = ustr ''a b''
   \<and> \<not> is_space (hd (ustr ''a b'')) \<and> \<not> is_space (last (ustr ''a b''))
   \<and> (\<forall>pre post. ustr ''a b'' \<noteq> pre @ SP # SP # post)
   \<and> re_sub tag_re [] (ustr ''a  b'') = ustr ''a  b''
   \<and> clean_html (ustr ''a   b'') = ustr ''a b''
   \<and> clean_html (ustr ''a\<newline> \<newline>b'') = ustr ''a\<newline>\<newline>b''
   \<and> collapse_spaces (ustr ''a   b'') = ustr ''a b''"
proof -
  let ?h = "ustr ''<i>a  b</i> ''"
  have e: "clean_html ?h = ustr ''a b''"
    by (simp add: eval_clean)
  have n: "ustr ''a b'' \<noteq> []" and l: "LT \<notin> set (ustr ''a  b'')"
    by (simp_all add: ustr_def LT_def)
  have w: "ustr ''a'' \<noteq> [] \<and> ustr ''b'' \<noteq> []
      \<and> (\<forall>c\<in>set (ustr ''a'' @ ustr ''b''). \<not> is_space c \<and> c \<noteq> LT)"
    by (simp add: ustr_def LT_def is_space_def)
  have s: "list_all is_space [SP]"
    by simp
  have c: "(ustr ''a'' = [] \<or> last (ustr ''a'') \<noteq> SP) \<and> (ustr ''b'' = [] \<or> hd (ustr ''b'') \<noteq> SP)"
    by (simp add: ustr_def SP_def)
  have x1: "ustr ''a'' @ replicate (Suc (Suc (Suc 0))) SP @ ustr ''b'' = ustr ''a   b''"
    by (simp add: ustr_def SP_def)
  have x2: "ustr ''a'' @ LF # [SP] @ LF # ustr ''b'' = ustr ''a\<newline> \<newline>b''"
    by (simp add: ustr_def SP_def LF_def)
  have x3: "ustr ''a'' @ LF # LF # ustr ''b'' = ustr ''a\<newline>\<newline>b''"
    by (simp add: ustr_def LF_def)
  have x4: "ustr ''a'' @ SP # ustr ''b'' = ustr ''a b''"
    by (simp add: ustr_def SP_def)
  have x5: "collapse_spaces (ustr ''a'') = ustr ''a''" "collapse_spaces (ustr ''b'') = ustr ''b''"
    by (simp_all add: ustr_def)
  note t = clean_html_properties [where u = "ustr ''a''" and v = "ustr ''b''"
      and n = "Suc (Suc 0)" and w = "[SP]" and a = "ustr ''a''" and b = "ustr ''b''"]
  note r = conjunct2 [THEN conjunct2, THEN conjunct2]
  have 1: "\<forall>pre post. clean_html ?h \<noteq> pre @ SP # SP # post"
    by (rule t [of ?h, THEN r, THEN conjunct1])
  have 2: "clean_html ?h \<noteq> [] \<longrightarrow> \<not> is_space (hd (clean_html ?h)) \<and> \<not> is_space (last (clean_html ?h))"
    by (rule t [of ?h, THEN r, THEN conjunct2, THEN conjunct1])
  have 3: "LT \<notin> set (ustr ''a  b'') \<longrightarrow> re_sub tag_re [] (ustr ''a  b'') = ustr ''a  b''"
    by (rule t [of "ustr ''a  b''", THEN r, THEN r, THEN conjunct1])
  note q = t [of "[]", THEN r, THEN r, THEN r]
  have 4: "collapse_spaces (ustr ''a'' @ replicate (Suc (Suc (Suc 0))) SP @ ustr ''b'')
        = collapse_spaces (ustr ''a'') @ SP # collapse_spaces (ustr ''b'')"
    by (rule q [THEN conjunct1, THEN mp, OF c])
  have 5: "clean_html (ustr ''a'' @ replicate (Suc (Suc (Suc 0))) SP @ ustr ''b'')
        = ustr ''a'' @ SP # ustr ''b''"
    by (rule q [THEN conjunct2, THEN conjunct1, THEN mp, OF w])
  have 6: "clean_html (ustr ''a'' @ LF # [SP] @ LF # ustr ''b'') = ustr ''a'' @ LF # LF # ustr ''b''"
    by (rule q [THEN conjunct2, THEN conjunct2, THEN mp, OF conjI [OF w [THEN conjunct1]
        conjI [OF w [THEN conjunct2, THEN conjunct1] conjI [OF w [THEN conjunct2, THEN conjunct2] s]]]])
  from 2 n have 2: "\<not> is_space (hd (ustr ''a b'')) \<and> \<not> is_space (last (ustr ''a b''))"
    unfolding e by (rule mp)
  from 3 l have 3: "re_sub tag_re [] (ustr ''a  b'') = ustr ''a  b''"
    by (rule mp)
  note 1 = 1 [unfolded e]
  note 4 = 4 [unfolded x1 x4 x5]
  note 5 = 5 [unfolded x1 x4]
  note 6 = 6 [unfolded x2 x3]
  show ?thesis
    by (intro conjI e 1 2 [THEN conjunct1] 2 [THEN conjunct2] 3 4 5 6)
qed

subsection \<open>Evaluating the parsers\<close>

lemma matches_Seq: "matches (Seq a b) s = then_match b (matches a s)"
proof -
  have "concat (map (\<lambda>(g, r). map (\<lambda>(g', r'). (g @ g', r')) (matches b r)) l) = then_match b l" for l
    by (induction l) (auto simp: case_prod_unfold)
  then show ?thesis by simp
qed

lemma and_then_simps [simp]: "and_then (Inl e) f = Inl e" "and_then (Inr x) f = f x"
  by (simp_all add: and_then_def)

lemma and_then_cong [cong]: "m = m' \<Longrightarrow> and_then m f = and_then m' f"
  by simp

lemma replicate_numeral: "replicate (numeral k) x = x # replicate (pred_numeral k) x"
  by (simp add: numeral_eq_Suc)

lemma char_of_eq_iff': "c = char_of n \<longleftrightarrow> take_bit 8 n = of_char c"
  using char_of_eq_iff [of n c] by auto

lemmas eval_strptime =
  strptime_def directive_def is_space_char_def is_space_def re_match_def
  ci_def rng_def D_def opt_def word_def a_weekday_def a_month_def z_regex_def
  is_digit_def ascii_lower_def strptime_group_def initial_fields_def py_int_def
  int_of_digits_def digit_val_def check_date_fields_def check_time_fields_def check_offset_def
  datetime_new_def days_in_month_def DAYS_IN_MONTH_def is_leap_def MINYEAR_def MAXYEAR_def
  parse_z_def char_at_def slice_def Let_def matches_Seq replicate_numeral char_of_eq_iff
  char_of_eq_iff'

lemmas eval_iso =
  validate_date_format_def replace_Z_def fromisoformat_def find_isoformat_datetime_separator_def
  parse_isoformat_date_def parse_isoformat_time_def parse_hh_mm_ss_ff_def parse_digits_def
  tzinfo_from_isoformat_results_def correction_def iso_to_ymd_def iso_week1_monday_def
  as_utf8_def byte_at_def size_t_def is_tz_start_def
  is_digit_def int_of_digits_def digit_val_def Let_def
  check_date_fields_def check_time_fields_def check_offset_def
  datetime_new_def days_in_month_def DAYS_IN_MONTH_def is_leap_def MINYEAR_def MAXYEAR_def

subsection \<open>Retrieval\<close>

lemma retrieve_loop_outcomes:
  "retrieve_loop svc clock ib bd i ms emails errs =
     (emails @ successes (outcomes svc clock ib bd i ms),
      errs + failures (outcomes svc clock ib bd i ms))"
proof (induction ms arbitrary: i emails errs)
  case Nil
  show ?case by simp
next
  case (Cons m ms)
  show ?case
    by (cases "parse_email_data svc (clock i) m ib bd") (simp_all add: Cons)
qed

text \<open>
  C7. When the listing call returns, the retrieval returns: an empty match set (no
  \<^verbatim>\<open>messages\<close> key or an empty list) gives the empty list, and otherwise the result is the
  list of the records of exactly those messages whose fetch and parse succeeded, in
  order, while every failure is counted in \<^verbatim>\<open>parsing_errors\<close> and none is propagated.
\<close>

theorem retrieval_returns_parsed_subset:
  "(messages_list svc (search_query start_date end_date query_filter) max_results = Inr results \<longrightarrow>
      get_emails_by_date_range svc clock start_date end_date max_results query_filter
          include_body basic_data
        = Inr (successes (outcomes svc clock include_body basic_data 1
                 (case results of None \<Rightarrow> [] | Some ms \<Rightarrow> ms)),
               failures (outcomes svc clock include_body basic_data 1
                 (case results of None \<Rightarrow> [] | Some ms \<Rightarrow> ms))))
   \<and> (messages_list svc (search_query start_date end_date query_filter) max_results = Inr None
        \<or> messages_list svc (search_query start_date end_date query_filter) max_results = Inr (Some []) \<longrightarrow>
      get_emails_by_date_range svc clock start_date end_date max_results query_filter
          include_body basic_data = Inr ([], 0))"
proof (intro conjI impI)
  assume l: "messages_list svc (search_query start_date end_date query_filter) max_results = Inr results"
  show "get_emails_by_date_range svc clock start_date end_date max_results query_filter
          include_body basic_data
        = Inr (successes (outcomes svc clock include_body basic_data 1
                 (case results of None \<Rightarrow> [] | Some ms \<Rightarrow> ms)),
               failures (outcomes svc clock include_body basic_data 1
                 (case results of None \<Rightarrow> [] | Some ms \<Rightarrow> ms)))"
  proof (cases "(case results of None \<Rightarrow> [] | Some ms \<Rightarrow> ms) = []")
    case True
    with l show ?thesis
      by (simp add: get_emails_by_date_range_def search_query_def Let_def)
  next
    case False
    with l show ?thesis
      by (simp add: get_emails_by_date_range_def search_query_def retrieve_loop_outcomes Let_def)
  qed
next
  assume "messages_list svc (search_query start_date end_date query_filter) max_results = Inr None
        \<or> messages_list svc (search_query start_date end_date query_filter) max_results = Inr (Some [])"
  then show "get_emails_by_date_range svc clock start_date end_date max_results query_filter
          include_body basic_data = Inr ([], 0)"
    by (auto simp: get_emails_by_date_range_def search_query_def Let_def)
qed

subsection \<open>Numbers and their text\<close>

lemma digits_fuel_indep: "n < k \<Longrightarrow> n < k' \<Longrightarrow> digits_fuel k n = digits_fuel k' n"
proof (induction k n arbitrary: k' rule: digits_fuel.induct)
  case (1 n)
  then show ?case by simp
next
  case (2 k n)
  from "2.prems" obtain j where k': "k' = Suc j" by (cases k') auto
  show ?case
  proof (cases "n < 10")
    case True
    then show ?thesis by (simp add: k')
  next
    case False
    then have "n div 10 < k" "n div 10 < j"
      using "2.prems" k' by auto
    with False "2.IH" [of j] show ?thesis by (simp add: k')
  qed
qed

lemma str_nat_unfold:
  "str_nat n = (if n < 10 then [digit_char n] else str_nat (n div 10) @ [digit_char (n mod 10)])"
proof (cases "n < 10")
  case True
  then show ?thesis by (simp add: str_nat_def)
next
  case False
  then have "digits_fuel n (n div 10) = digits_fuel (Suc (n div 10)) (n div 10)"
    by (intro digits_fuel_indep) auto
  with False show ?thesis by (simp add: str_nat_def)
qed

lemma is_digit_digit_char: "n < 10 \<Longrightarrow> is_digit (digit_char n)"
  by (simp add: is_digit_def digit_char_def)

lemma digit_val_digit_char: "n < 10 \<Longrightarrow> digit_val (digit_char n) = int n"
  by (simp add: digit_val_def digit_char_def)

lemma str_nat_1: "n < 10 \<Longrightarrow> str_nat n = [digit_char n]"
  by (subst str_nat_unfold) simp

lemma str_nat_2: "10 \<le> n \<Longrightarrow> n < 100 \<Longrightarrow> str_nat n = [digit_char (n div 10), digit_char (n mod 10)]"
  by (subst str_nat_unfold) (simp add: str_nat_1)

lemma str_nat_3: "100 \<le> n \<Longrightarrow> n < 1000 \<Longrightarrow>
    str_nat n = [digit_char (n div 100), digit_char (n div 10 mod 10), digit_char (n mod 10)]"
proof -
  assume a: "100 \<le> n" "n < 1000"
  have d: "n div 10 div 10 = n div 100" by (simp add: div_mult2_eq [symmetric])
  from a have "10 \<le> n div 10" "n div 10 < 100" by simp_all
  then have "str_nat (n div 10) = [digit_char (n div 10 div 10), digit_char (n div 10 mod 10)]"
    by (rule str_nat_2)
  with a d show ?thesis by (subst str_nat_unfold) simp
qed

lemma str_nat_4: "1000 \<le> n \<Longrightarrow> n < 10000 \<Longrightarrow>
    str_nat n = [digit_char (n div 1000), digit_char (n div 100 mod 10),
                 digit_char (n div 10 mod 10), digit_char (n mod 10)]"
proof -
  assume a: "1000 \<le> n" "n < 10000"
  have d: "n div 10 div 100 = n div 1000" "n div 10 div 10 = n div 100" by simp_all
  from a have "100 \<le> n div 10" "n div 10 < 1000" by simp_all
  then have "str_nat (n div 10) = [digit_char (n div 10 div 100),
      digit_char (n div 10 div 10 mod 10), digit_char (n div 10 mod 10)]"
    by (rule str_nat_3)
  with a d show ?thesis by (subst str_nat_unfold) simp
qed

lemma str_nat_5: "10000 \<le> n \<Longrightarrow> n < 100000 \<Longrightarrow>
    str_nat n = [digit_char (n div 10000), digit_char (n div 1000 mod 10),
                 digit_char (n div 100 mod 10), digit_char (n div 10 mod 10), digit_char (n mod 10)]"
proof -
  assume a: "10000 \<le> n" "n < 100000"
  have d: "n div 10 div 1000 = n div 10000" "n div 10 div 100 = n div 1000"
    "n div 10 div 10 = n div 100" by simp_all
  from a have "1000 \<le> n div 10" "n div 10 < 10000" by simp_all
  then have "str_nat (n div 10) = [digit_char (n div 10 div 1000),
      digit_char (n div 10 div 100 mod 10), digit_char (n div 10 div 10 mod 10),
      digit_char (n div 10 mod 10)]"
    by (rule str_nat_4)
  with a d show ?thesis by (subst str_nat_unfold) simp
qed

lemma str_nat_6: "100000 \<le> n \<Longrightarrow> n < 1000000 \<Longrightarrow>
    str_nat n = [digit_char (n div 100000), digit_char (n div 10000 mod 10),
                 digit_char (n div 1000 mod 10), digit_char (n div 100 mod 10),
                 digit_char (n div 10 mod 10), digit_char (n mod 10)]"
proof -
  assume a: "100000 \<le> n" "n < 1000000"
  have d: "n div 10 div 10000 = n div 100000" "n div 10 div 1000 = n div 10000"
    "n div 10 div 100 = n div 1000" "n div 10 div 10 = n div 100" by simp_all
  from a have "10000 \<le> n div 10" "n div 10 < 100000" by simp_all
  then have "str_nat (n div 10) = [digit_char (n div 10 div 10000),
      digit_char (n div 10 div 1000 mod 10), digit_char (n div 10 div 100 mod 10),
      digit_char (n div 10 div 10 mod 10), digit_char (n div 10 mod 10)]"
    by (rule str_nat_5)
  with a d show ?thesis by (subst str_nat_unfold) simp
qed

lemma digit_char_0: "digit_char 0 = CHR ''0''"
  by (simp add: digit_char_def char_of_eq_iff)

lemma replicate_pad:
  "replicate (Suc 0) x = [x]" "replicate 2 x = [x, x]" "replicate 3 x = [x, x, x]"
  "replicate 4 x = [x, x, x, x]" "replicate 5 x = [x, x, x, x, x]"
  by (simp_all add: replicate_numeral)

lemma zero_pad_2:
  assumes "0 \<le> v" "v < 100"
  shows "zero_pad 2 v = [digit_char (nat v div 10), digit_char (nat v mod 10)]"
proof (cases "nat v < 10")
  case True
  then show ?thesis
    by (simp add: zero_pad_def str_nat_1 digit_char_0 replicate_pad)
next
  case False
  with assms show ?thesis
    by (simp add: zero_pad_def str_nat_2)
qed

lemma zero_pad_4:
  assumes "0 \<le> v" "v < 10000"
  shows "zero_pad 4 v = [digit_char (nat v div 1000), digit_char (nat v div 100 mod 10),
                         digit_char (nat v div 10 mod 10), digit_char (nat v mod 10)]"
proof -
  consider "nat v < 10" | "10 \<le> nat v" "nat v < 100" | "100 \<le> nat v" "nat v < 1000"
    | "1000 \<le> nat v" "nat v < 10000"
    using assms by linarith
  then show ?thesis
  proof cases
    case 1
    then show ?thesis by (simp add: zero_pad_def str_nat_1 digit_char_0 replicate_pad)
  next
    case 2
    then show ?thesis by (simp add: zero_pad_def str_nat_2 digit_char_0 replicate_pad)
  next
    case 3
    then show ?thesis by (simp add: zero_pad_def str_nat_3 digit_char_0 replicate_pad)
  next
    case 4
    then show ?thesis by (simp add: zero_pad_def str_nat_4)
  qed
qed

lemma zero_pad_6:
  assumes "0 \<le> v" "v < 1000000"
  shows "zero_pad 6 v = [digit_char (nat v div 100000), digit_char (nat v div 10000 mod 10),
                         digit_char (nat v div 1000 mod 10), digit_char (nat v div 100 mod 10),
                         digit_char (nat v div 10 mod 10), digit_char (nat v mod 10)]"
proof -
  consider "nat v < 10" | "10 \<le> nat v" "nat v < 100" | "100 \<le> nat v" "nat v < 1000"
    | "1000 \<le> nat v" "nat v < 10000" | "10000 \<le> nat v" "nat v < 100000"
    | "100000 \<le> nat v" "nat v < 1000000"
    using assms by linarith
  then show ?thesis
  proof cases
    case 1
    then show ?thesis by (simp add: zero_pad_def str_nat_1 digit_char_0 replicate_pad)
  next
    case 2
    then show ?thesis by (simp add: zero_pad_def str_nat_2 digit_char_0 replicate_pad)
  next
    case 3
    then show ?thesis by (simp add: zero_pad_def str_nat_3 digit_char_0 replicate_pad)
  next
    case 4
    then show ?thesis by (simp add: zero_pad_def str_nat_4 digit_char_0 replicate_pad)
  next
    case 5
    then show ?thesis by (simp add: zero_pad_def str_nat_5 digit_char_0 replicate_pad)
  next
    case 6
    then show ?thesis by (simp add: zero_pad_def str_nat_6)
  qed
qed

subsection \<open>Basic mode and the body\<close>

lemma fields_ignore_other_key:
  "k \<noteq> k' \<Longrightarrow> required_str (d(k' \<mapsto> v)) k = required_str d k"
  "k \<noteq> k' \<Longrightarrow> optional_str (d(k' \<mapsto> v)) k = optional_str d k"
  "k \<noteq> k' \<Longrightarrow> default_str (d(k' \<mapsto> v)) k dflt = default_str d k dflt"
  by (simp_all add: required_str_def optional_str_def default_str_def)

lemma GMailData_init_ignores_body: "GMailData_init (d(''body'' \<mapsto> v)) = GMailData_init d"
proof -
  have "required_str (d(''body'' \<mapsto> v)) ''id'' = required_str d ''id''"
    "optional_str (d(''body'' \<mapsto> v)) ''thread_id'' = optional_str d ''thread_id''"
    "required_str (d(''body'' \<mapsto> v)) ''from'' = required_str d ''from''"
    "required_str (d(''body'' \<mapsto> v)) ''subject'' = required_str d ''subject''"
    "required_str (d(''body'' \<mapsto> v)) ''date'' = required_str d ''date''"
    "default_str (d(''body'' \<mapsto> v)) ''snippet'' [] = default_str d ''snippet'' []"
    by (simp_all add: fields_ignore_other_key)
  then show ?thesis
    unfolding GMailData_init_def by (simp only:)
qed

lemma and_then_Inr_iff: "and_then m f = Inr y \<longleftrightarrow> (\<exists>x. m = Inr x \<and> f x = Inr y)"
  by (cases m) simp_all

text \<open>
  C10. In basic mode with the body requested, the record that is returned is a
  \<^verbatim>\<open>GMailData\<close>, which has the six basic fields and no body, and it is the record that the
  same call returns without the body requested: the extracted body, stored in the
  dictionary under \<^verbatim>\<open>body\<close>, is ignored by the construction.
\<close>

theorem basic_mode_drops_body:
  "(parse_email_data svc now message_id True True = Inr e \<longrightarrow>
      (\<exists>r. e = Basic r) \<and> parse_email_data svc now message_id False True = Inr e)
   \<and> GMailData_init (d(''body'' \<mapsto> v)) = GMailData_init d"
proof (intro conjI impI)
  assume a: "parse_email_data svc now message_id True True = Inr e"
  then obtain md where md: "messages_get svc message_id = Inr md"
    unfolding parse_email_data_def and_then_Inr_iff by blast
  from a md obtain p where p: "payload md = Some p"
    unfolding parse_email_data_def by (cases "payload md") simp_all
  from a md p obtain body where body: "extract_email_body md = Inr body"
    unfolding parse_email_data_def by (cases "extract_email_body md") (simp_all add: Let_def)
  from a md p body show "\<exists>r. e = Basic r"
    unfolding parse_email_data_def
    by (auto simp: Let_def and_then_Inr_iff)
  from a md p body show "parse_email_data svc now message_id False True = Inr e"
    unfolding parse_email_data_def
    by (simp add: Let_def GMailData_init_ignores_body)
next
  show "GMailData_init (d(''body'' \<mapsto> v)) = GMailData_init d"
    by (rule GMailData_init_ignores_body)
qed

lemmas eval_format =
  isoformat_def format_time_def format_offset_def strftime_readable_def strftime_Y_def
  format_date_for_gmail_def zero_pad_2 zero_pad_4 zero_pad_6 str_nat_4 digit_char_def
  char_of_eq_iff char_of_eq_iff'

lemma sample_date:
  "parse_date now ''Mon, 15 Jan 2024 10:30:00 -0800 (PST)''
     = \<lparr>year = 2024, month = 1, day = 15, hour = 10, minute = 30, second = 0, microsecond = 0,
        tzinfo = Some (- 28800000000)\<rparr>"
proof -
  have "date_text ''Mon, 15 Jan 2024 10:30:00 -0800 (PST)'' = ''Mon, 15 Jan 2024 10:30:00 -0800''"
    by (simp add: date_text_def)
  moreover have "strptime ''Mon, 15 Jan 2024 10:30:00 -0800'' ''%a, %d %b %Y %H:%M:%S %z''
      = Inr \<lparr>year = 2024, month = 1, day = 15, hour = 10, minute = 30, second = 0,
              microsecond = 0, tzinfo = Some (- 28800000000)\<rparr>"
    by (simp add: eval_strptime del: matches.simps(4))
  ultimately show ?thesis by (simp add: parse_date_def)
qed

lemma sample_iso:
  "isoformat \<lparr>year = 2024, month = 1, day = 15, hour = 10, minute = 30, second = 0, microsecond = 0,
        tzinfo = Some (- 28800000000)\<rparr> = ''2024-01-15T10:30:00-08:00''"
  by (simp add: eval_format)

lemma sample_iso_valid: "validate_date_format ''2024-01-15T10:30:00-08:00'' = Inr ''2024-01-15T10:30:00-08:00''"
  by (simp add: eval_iso)

lemma sample_readable:
  "strftime_readable \<lparr>year = 2024, month = 1, day = 15, hour = 10, minute = 30, second = 0, microsecond = 0,
        tzinfo = Some (- 28800000000)\<rparr> = ''2024-01-15 10:30:00''"
  by (simp add: eval_format)

lemma sample_readable_valid: "validate_readable_date ''2024-01-15 10:30:00'' = Inr ''2024-01-15 10:30:00''"
  by (simp add: validate_readable_date_def eval_strptime del: matches.simps(4))

lemma sample_fields:
  "threadId sample_details = Some ''t1''" "snippet sample_details = Some ''Hi''"
  "labelIds sample_details = Some [''INBOX'']" "sizeEstimate sample_details = Some 12"
  "payload sample_details = Some \<lparr>headers = Some [(''From'', ''a@b.c''),
      (''Date'', ''Mon, 15 Jan 2024 10:30:00 -0800 (PST)''), (''Subject'', ''S'')],
    root = Part (Some ''text/html'') (Some (Some ''PGI-SGk8L2I-'')) None\<rparr>"
  by (simp_all add: sample_details_def)

lemma sample_body: "extract_email_body sample_details = Inr (ustr ''<b>Hi</b>'')"
  by (simp add: extract_email_body_def sample_fields eval_decode ustr_def)

lemma sample_clean: "clean_html (ustr ''<b>Hi</b>'') = ustr ''Hi''"
  by (simp add: eval_clean)

lemma sample_headers:
  "headers_dict [(''From'', ''a@b.c''), (''Date'', ''Mon, 15 Jan 2024 10:30:00 -0800 (PST)''), (''Subject'', ''S'')]
     = [''From'' \<mapsto> ''a@b.c'', ''Date'' \<mapsto> ''Mon, 15 Jan 2024 10:30:00 -0800 (PST)'', ''Subject'' \<mapsto> ''S'']"
  by (simp add: headers_dict_def)

lemmas eval_init =
  GMailData_init_def GMailDataExtended_init_def required_str_def optional_str_def
  default_str_def default_str_list_def default_nonneg_int_def optional_text_def validated_def

lemma sample_get: "messages_get sample_service ''m1'' = Inr sample_details"
  by (simp add: sample_service_def)

lemma sample_body_ne: "ustr ''<b>Hi</b>'' \<noteq> []"
  by (simp add: ustr_def)

lemmas eval_sample =
  parse_email_data_def sample_get sample_fields sample_headers dict_get_def sample_date
  sample_iso sample_iso_valid sample_readable sample_readable_valid sample_body sample_body_ne
  sample_clean eval_init Let_def

lemma sample_parse_basic:
  "parse_email_data sample_service now ''m1'' include_body True =
     Inr (Basic \<lparr>gm_id = ''m1'', gm_thread_id = Some ''t1'', gm_from = ''a@b.c'', gm_subject = ''S'',
                  gm_date = ''2024-01-15T10:30:00-08:00'', gm_snippet = ''Hi''\<rparr>)"
  by (simp add: eval_sample)

lemma sample_parse_extended:
  "parse_email_data sample_service now ''m1'' True False =
     Inr (Extended \<lparr>gm_id = ''m1'', gm_thread_id = Some ''t1'', gm_from = ''a@b.c'', gm_subject = ''S'',
                  gm_date = ''2024-01-15T10:30:00-08:00'', gm_snippet = ''Hi'', gm_to = ''Unknown'',
                  gm_date_readable = ''2024-01-15 10:30:00'', gm_labels = [''INBOX''],
                  gm_size_estimate = 12, gm_body = Some (ustr ''Hi'')\<rparr>)"
  by (simp add: eval_sample)

lemma sample_parse_failure: "parse_email_data sample_service now ''m2'' ib bd = Inl HttpError"
  by (simp add: parse_email_data_def sample_service_def)

theorem retrieval_returns_parsed_subset_witness:
  "get_emails_by_date_range sample_service (\<lambda>i. sample_now) sample_now sample_now 10 [] False True
     = Inr ([Basic \<lparr>gm_id = ''m1'', gm_thread_id = Some ''t1'', gm_from = ''a@b.c'', gm_subject = ''S'',
                    gm_date = ''2024-01-15T10:30:00-08:00'', gm_snippet = ''Hi''\<rparr>], 1)"
proof -
  have "messages_list sample_service (search_query sample_now sample_now []) 10
      = Inr (Some [''m1'', ''m2''])"
    by (simp add: sample_service_def)
  with retrieval_returns_parsed_subset [of sample_service sample_now sample_now "[]" 10
      "Some [''m1'', ''m2'']" "\<lambda>i. sample_now" False True]
  show ?thesis
    by (simp add: sample_parse_basic sample_parse_failure)
qed

theorem basic_mode_drops_body_witness:
  "parse_email_data sample_service sample_now ''m1'' True True
     = Inr (Basic \<lparr>gm_id = ''m1'', gm_thread_id = Some ''t1'', gm_from = ''a@b.c'', gm_subject = ''S'',
                    gm_date = ''2024-01-15T10:30:00-08:00'', gm_snippet = ''Hi''\<rparr>)
   \<and> parse_email_data sample_service sample_now ''m1'' False True
       = parse_email_data sample_service sample_now ''m1'' True True
   \<and> (\<exists>b. parse_email_data sample_service sample_now ''m1'' True False = Inr (Extended b)
          \<and> gm_body b = Some (ustr ''Hi''))"
proof -
  have e: "parse_email_data sample_service sample_now ''m1'' True True
     = Inr (Basic \<lparr>gm_id = ''m1'', gm_thread_id = Some ''t1'', gm_from = ''a@b.c'', gm_subject = ''S'',
                    gm_date = ''2024-01-15T10:30:00-08:00'', gm_snippet = ''Hi''\<rparr>)"
    by (rule sample_parse_basic)
  from basic_mode_drops_body [of sample_service sample_now "''m1''" _ Map.empty PyNone] e
  show ?thesis
    by (simp add: sample_parse_extended)
qed

end
